theory Spec2Isabelle
  imports Main "HOL-Library.AList"
begin

section \<open>Python values\<close>

text \<open>
  The values a column can hold. Floating-point values are outside the model. A tuple is
  not needed: the rows handed to the database are lists of values.
\<close>

datatype pyval = PNone | PBool bool | PInt int | PStr string | PList "pyval list"

text \<open>
  Python's \<open>==\<close> on these values: \<open>bool\<close> is a subclass of \<open>int\<close>, so
  \<open>True == 1\<close>; lists compare element by element. \<open>!=\<close> is its negation.
\<close>

fun py_eq :: "pyval \<Rightarrow> pyval \<Rightarrow> bool"
  and py_eq_list :: "pyval list \<Rightarrow> pyval list \<Rightarrow> bool" where
  "py_eq PNone PNone = True"
| "py_eq (PBool a) (PBool b) = (a = b)"
| "py_eq (PBool a) (PInt j) = ((if a then 1 else 0) = j)"
| "py_eq (PInt i) (PBool b) = (i = (if b then 1 else 0))"
| "py_eq (PInt i) (PInt j) = (i = j)"
| "py_eq (PStr s) (PStr t) = (s = t)"
| "py_eq (PList xs) (PList ys) = py_eq_list xs ys"
| "py_eq _ _ = False"
| "py_eq_list [] [] = True"
| "py_eq_list (x # xs) (y # ys) = (py_eq x y \<and> py_eq_list xs ys)"
| "py_eq_list _ _ = False"

text \<open>\<open>d.get(key)\<close>: the value, or \<open>None\<close> when the key is absent.\<close>

definition dict_get :: "(string \<rightharpoonup> pyval) \<Rightarrow> string \<Rightarrow> pyval" where
  "dict_get d key = (case d key of None \<Rightarrow> PNone | Some v \<Rightarrow> v)"

section \<open>Errors\<close>

text \<open>
  The three messages \<open>model.py\<close> formats itself, and the argument tuple of a
  \<open>ValidationError\<close> re-raised under another class (\<open>error_type(*ex.args)\<close>).
\<close>

datatype message =
    MissingPrimaryKeys "string set"
  | InvalidKeys string "string set"
  | DifferentKeySets
  | Args "pyval list"

datatype error =
    SpannerError message
  | ValueError "pyval list"
  | AttributeError "pyval list"
  | KeyError string
  | TypeError
  | DatabaseError

section \<open>Schema\<close>

text \<open>
  Modelled from the spec: \<open>field.Field\<close>, whose source is not part of \<open>model.py\<close>.
  \<open>validate f v\<close> is \<open>None\<close> when \<open>Field.validate(v)\<close> returns and \<open>Some args\<close> when it
  raises \<open>ValidationError(*args)\<close>. A field is nullable iff its validator accepts \<open>None\<close>.
\<close>

record field =
  validate :: "pyval \<Rightarrow> pyval list option"

definition nullable :: "field \<Rightarrow> bool" where
  "nullable f = (validate f PNone = None)"

text \<open>
  Modelled from the spec: \<open>metadata.ModelMetadata\<close> as the metaclass exposes it
  (\<open>cls.table\<close>, \<open>cls.__name__\<close>, \<open>cls.schema\<close>, \<open>cls.primary_keys\<close>, \<open>cls.relations\<close>).
  \<open>meta_fields\<close> (\<open>cls.meta.fields\<close>) is the ordered mapping of column name to field, its keys distinct as in a
  dictionary; \<open>cls.columns\<close> lists its keys. Of \<open>relations\<close> only the names matter here.
  Column and relation names are assumed not to be \<open>_persisted\<close>, \<open>start_values\<close> or
  the name of a property of the class (\<open>values\<close>, \<open>_columns\<close> and the like). A name of
  one of the plain methods is allowed for: see \<open>shadowed\<close> below.
\<close>

record schema =
  table :: string
  name :: string
  meta_fields :: "(string \<times> field) list"
  primary_keys :: "string list"
  relations :: "string list"

definition columns :: "schema \<Rightarrow> string list" where
  "columns sch = map fst (meta_fields sch)"

text \<open>\<open>ModelMetaclass.validate_value\<close>; \<open>error_type\<close> is the exception class to raise.\<close>

definition validate_value ::
  "schema \<Rightarrow> string \<Rightarrow> pyval \<Rightarrow> (pyval list \<Rightarrow> error) \<Rightarrow> error + unit" where
  "validate_value sch field_name v error_type =
     (case map_of (meta_fields sch) field_name of
        None \<Rightarrow> Inl (KeyError field_name)
      | Some f \<Rightarrow>
          (case validate f v of
             None \<Rightarrow> Inr ()
           | Some args \<Rightarrow> Inl (error_type args)))"

section \<open>Record instances\<close>

text \<open>
  An instance: \<open>attrs\<close> is its \<open>__dict__\<close> without the two bookkeeping entries, which are
  the fields \<open>start_values\<close> and \<open>persisted\<close> (\<open>_persisted\<close> in the source).
\<close>

record model =
  attrs :: "string \<rightharpoonup> pyval"
  start_values :: "string \<rightharpoonup> pyval"
  persisted :: bool

text \<open>The validation loop of \<open>__init__\<close>: the first column that fails raises.\<close>

fun validate_columns :: "schema \<Rightarrow> (string \<rightharpoonup> pyval) \<Rightarrow> string list \<Rightarrow> error + unit" where
  "validate_columns sch vals [] = Inr ()"
| "validate_columns sch vals (column # rest) =
     (case validate_value sch column (dict_get vals column) ValueError of
        Inl e \<Rightarrow> Inl e
      | Inr _ \<Rightarrow> validate_columns sch vals rest)"

text \<open>\<open>set(self._primary_keys) - set(values.keys())\<close>.\<close>

definition missing_keys :: "schema \<Rightarrow> (string \<rightharpoonup> pyval) \<Rightarrow> string set" where
  "missing_keys sch vals = set (filter (\<lambda>key. vals key = None) (primary_keys sch))"

text \<open>
  The two population loops of \<open>__init__\<close>. \<open>copy.copy\<close> of a value of the model is the
  value itself.
\<close>

definition populate :: "schema \<Rightarrow> (string \<rightharpoonup> pyval) \<Rightarrow> bool \<Rightarrow> model" where
  "populate sch vals p =
     \<lparr> attrs =
         fold (\<lambda>relation d. case vals relation of None \<Rightarrow> d | Some v \<Rightarrow> d(relation \<mapsto> v))
           (relations sch)
           (fold (\<lambda>column d. d(column \<mapsto> dict_get vals column)) (columns sch) Map.empty),
       start_values =
         fold (\<lambda>column d. d(column \<mapsto> dict_get vals column)) (columns sch) Map.empty,
       persisted = p \<rparr>"

text \<open>\<open>Model.__init__(values, persisted)\<close>.\<close>

definition init :: "schema \<Rightarrow> (string \<rightharpoonup> pyval) \<Rightarrow> bool \<Rightarrow> error + model" where
  "init sch vals p =
     (if \<not> p then
        (if missing_keys sch vals \<noteq> {} then
           Inl (SpannerError (MissingPrimaryKeys (missing_keys sch vals)))
         else
           (case validate_columns sch vals (columns sch) of
              Inl e \<Rightarrow> Inl e
            | Inr _ \<Rightarrow> Inr (populate sch vals p)))
      else Inr (populate sch vals p))"

text \<open>
  \<open>Model.__setattr__\<close>. On an error the instance is left as it was. A name that is
  neither a relation nor a column is stored by \<open>object.__setattr__\<close>.
\<close>

definition setattr :: "schema \<Rightarrow> model \<Rightarrow> string \<Rightarrow> pyval \<Rightarrow> error + model" where
  "setattr sch self attr v =
     (if attr \<in> set (relations sch) then Inl (AttributeError [PStr attr])
      else if attr \<in> set (columns sch) then
        (if attr \<in> set (primary_keys sch) then Inl (AttributeError [PStr attr])
         else
           (case validate_value sch attr v AttributeError of
              Inl e \<Rightarrow> Inl e
            | Inr _ \<Rightarrow> Inr (self\<lparr>attrs := (attrs self)(attr \<mapsto> v)\<rparr>)))
      else Inr (self\<lparr>attrs := (attrs self)(attr \<mapsto> v)\<rparr>))"

text \<open>\<open>getattr(self, key)\<close> for an instance attribute; a missing one raises.\<close>

definition getattr :: "model \<Rightarrow> string \<Rightarrow> error + pyval" where
  "getattr self key =
     (case attrs self key of None \<Rightarrow> Inl (AttributeError [PStr key]) | Some v \<Rightarrow> Inr v)"

text \<open>\<open>{key: getattr(self, key) for key in keys}\<close>, a dictionary in the order of \<open>keys\<close>.\<close>

fun getattrs :: "model \<Rightarrow> string list \<Rightarrow> error + (string \<times> pyval) list" where
  "getattrs self [] = Inr []"
| "getattrs self (key # keys) =
     (case getattr self key of
        Inl e \<Rightarrow> Inl e
      | Inr v \<Rightarrow>
          (case getattrs self keys of
             Inl e \<Rightarrow> Inl e
           | Inr rest \<Rightarrow> Inr ((key, v) # rest)))"

text \<open>The property \<open>Model.values\<close>.\<close>

definition values_of :: "schema \<Rightarrow> model \<Rightarrow> error + (string \<times> pyval) list" where
  "values_of sch self = getattrs self (columns sch)"

text \<open>
  The plain methods of \<open>Model\<close> (\<open>changes\<close>, \<open>id\<close>, \<open>reload\<close>, \<open>save\<close>) are found on
  the class only when the instance \<open>__dict__\<close> has no entry of that name. \<open>__init__\<close>
  and \<open>__setattr__\<close> store columns, relations and other attributes in the \<open>__dict__\<close>,
  so an attribute named as the method shadows it: \<open>self.id()\<close> then calls the stored
  value, which raises \<open>TypeError\<close>.
\<close>

definition shadowed :: "model \<Rightarrow> string \<Rightarrow> bool" where
  "shadowed self method = (attrs self method \<noteq> None)"

text \<open>
  \<open>Model.changes\<close>: the entries of \<open>values\<close>, in column order, that differ from the
  baseline.
\<close>

definition changes :: "schema \<Rightarrow> model \<Rightarrow> error + (string \<times> pyval) list" where
  "changes sch self =
     (if shadowed self ''changes'' then Inl TypeError
      else
        (case values_of sch self of
           Inl e \<Rightarrow> Inl e
         | Inr vals \<Rightarrow>
             Inr (filter (\<lambda>(key, v). \<not> py_eq v (dict_get (start_values self) key)) vals)))"

text \<open>
  \<open>Model.id\<close>: \<open>{key: self.values[key] for key in self._primary_keys}\<close>; the property
  \<open>values\<close> is read once per key.
\<close>

fun id_entries :: "schema \<Rightarrow> model \<Rightarrow> string list \<Rightarrow> error + (string \<times> pyval) list" where
  "id_entries sch self [] = Inr []"
| "id_entries sch self (key # keys) =
     (case values_of sch self of
        Inl e \<Rightarrow> Inl e
      | Inr vals \<Rightarrow>
          (case map_of vals key of
             None \<Rightarrow> Inl (KeyError key)
           | Some v \<Rightarrow>
               (case id_entries sch self keys of
                  Inl e \<Rightarrow> Inl e
                | Inr rest \<Rightarrow> Inr ((key, v) # rest))))"

definition model_id :: "schema \<Rightarrow> model \<Rightarrow> error + (string \<times> pyval) list" where
  "model_id sch self =
     (if shadowed self ''id'' then Inl TypeError
      else id_entries sch self (primary_keys sch))"

section \<open>The Database API\<close>

text \<open>
  Modelled from the spec: \<open>api.SpannerApi\<close>, the external collaborator. Every call made
  to it is appended to a log. A call whose transaction is \<open>None\<close> stands for the call run
  through \<open>run_read_only\<close> or \<open>run_write\<close>, in a transaction of its own. The database is
  a deterministic environment: its answer to a call is a function of the calls made
  before and of the call, and it either raises or returns rows.
\<close>

datatype keyset = KeySetAll | KeySet "pyval list list"

datatype api_method = Insert | Update | Upsert

datatype db_call =
    Find "nat option" string "string list" keyset
  | SqlQuery "nat option" string "(string \<times> pyval) list" "(string \<times> string) list"
  | Write api_method "nat option" string "string list option" "pyval list list"

datatype response = Raises | Returns "pyval list list"

type_synonym database = "db_call list \<Rightarrow> db_call \<Rightarrow> response"

definition db_invoke :: "database \<Rightarrow> db_call \<Rightarrow> db_call list \<Rightarrow> response \<times> db_call list" where
  "db_invoke db call log = (db log call, log @ [call])"

text \<open>\<open>ModelApi._execute_read\<close>.\<close>

definition execute_read ::
  "database \<Rightarrow> db_call \<Rightarrow> db_call list \<Rightarrow> (error + pyval list list) \<times> db_call list" where
  "execute_read db call log =
     (case db_invoke db call log of
        (Raises, log') \<Rightarrow> (Inl DatabaseError, log')
      | (Returns results, log') \<Rightarrow> (Inr results, log'))"

section \<open>Writes\<close>

text \<open>\<open>[dictionary[column] for column in columns]\<close>; a missing key raises.\<close>

fun lookup_all :: "(string \<times> pyval) list \<Rightarrow> string list \<Rightarrow> error + pyval list" where
  "lookup_all dictionary [] = Inr []"
| "lookup_all dictionary (column # rest) =
     (case map_of dictionary column of
        None \<Rightarrow> Inl (KeyError column)
      | Some v \<Rightarrow>
          (case lookup_all dictionary rest of
             Inl e \<Rightarrow> Inl e
           | Inr vs \<Rightarrow> Inr (v # vs)))"

text \<open>
  \<open>for key, value in dictionary.items(): cls.validate_value(key, value,
  error.SpannerError)\<close>.
\<close>

fun validate_items :: "schema \<Rightarrow> (string \<times> pyval) list \<Rightarrow> error + unit" where
  "validate_items sch [] = Inr ()"
| "validate_items sch ((key, v) # rest) =
     (case validate_value sch key v (\<lambda>args. SpannerError (Args args)) of
        Inl e \<Rightarrow> Inl e
      | Inr _ \<Rightarrow> validate_items sch rest)"

text \<open>\<open>set(dictionary.keys()) - set(cls.columns)\<close>.\<close>

definition invalid_keys :: "schema \<Rightarrow> (string \<times> pyval) list \<Rightarrow> string set" where
  "invalid_keys sch dictionary =
     set (filter (\<lambda>key. key \<notin> set (columns sch)) (map fst dictionary))"

text \<open>
  The loop of \<open>_execute_write\<close> over the dictionaries (association lists with distinct
  keys, in insertion order), carrying \<open>columns\<close> (\<open>None\<close> before the first dictionary)
  and \<open>values\<close>. Key views compare as sets.
\<close>

fun write_rows ::
  "schema \<Rightarrow> (string \<times> pyval) list list \<Rightarrow> string list option \<Rightarrow> pyval list list \<Rightarrow>
   error + (string list option \<times> pyval list list)" where
  "write_rows sch [] cols vals = Inr (cols, vals)"
| "write_rows sch (dictionary # rest) cols vals =
     (if invalid_keys sch dictionary \<noteq> {} then
        Inl (SpannerError (InvalidKeys (name sch) (invalid_keys sch dictionary)))
      else
        (let cols' = (case cols of None \<Rightarrow> map fst dictionary | Some c \<Rightarrow> c) in
         if set cols' \<noteq> set (map fst dictionary) then Inl (SpannerError DifferentKeySets)
         else
           (case validate_items sch dictionary of
              Inl e \<Rightarrow> Inl e
            | Inr _ \<Rightarrow>
                (case lookup_all dictionary cols' of
                   Inl e \<Rightarrow> Inl e
                 | Inr row \<Rightarrow> write_rows sch rest (Some cols') (vals @ [row])))))"

text \<open>\<open>ModelApi._execute_write(db_api, transaction, dictionaries)\<close>.\<close>

definition execute_write ::
  "database \<Rightarrow> schema \<Rightarrow> api_method \<Rightarrow> nat option \<Rightarrow> (string \<times> pyval) list list \<Rightarrow>
   db_call list \<Rightarrow> (error + unit) \<times> db_call list" where
  "execute_write db sch db_api tx dictionaries log =
     (case write_rows sch dictionaries None [] of
        Inl e \<Rightarrow> (Inl e, log)
      | Inr (cols, vals) \<Rightarrow>
          (case db_invoke db (Write db_api tx (table sch) cols vals) log of
             (Raises, log') \<Rightarrow> (Inl DatabaseError, log')
           | (Returns _, log') \<Rightarrow> (Inr (), log')))"

text \<open>\<open>ModelApi.create\<close>, \<open>update\<close> and \<open>create_or_update\<close>, with their keyword arguments.\<close>

definition create ::
  "database \<Rightarrow> schema \<Rightarrow> nat option \<Rightarrow> (string \<times> pyval) list \<Rightarrow> db_call list \<Rightarrow>
   (error + unit) \<times> db_call list" where
  "create db sch tx kwargs log = execute_write db sch Insert tx [kwargs] log"

definition update ::
  "database \<Rightarrow> schema \<Rightarrow> nat option \<Rightarrow> (string \<times> pyval) list \<Rightarrow> db_call list \<Rightarrow>
   (error + unit) \<times> db_call list" where
  "update db sch tx kwargs log = execute_write db sch Update tx [kwargs] log"

definition create_or_update ::
  "database \<Rightarrow> schema \<Rightarrow> nat option \<Rightarrow> (string \<times> pyval) list \<Rightarrow> db_call list \<Rightarrow>
   (error + unit) \<times> db_call list" where
  "create_or_update db sch tx kwargs log = execute_write db sch Upsert tx [kwargs] log"

text \<open>\<open>d.update(other)\<close>: a key of \<open>d\<close> keeps its place, a new key goes last.\<close>

definition dict_update ::
  "(string \<times> pyval) list \<Rightarrow> (string \<times> pyval) list \<Rightarrow> (string \<times> pyval) list" where
  "dict_update d other = fold (\<lambda>(key, v) acc. AList.update key v acc) other d"

text \<open>
  \<open>f(transaction, **kwargs)\<close> on a classmethod \<open>f(cls, transaction=None, **kwargs)\<close>, as
  \<open>save\<close> calls \<open>update\<close> and \<open>create\<close> and \<open>reload\<close> calls \<open>find\<close>: a keyword named
  \<open>cls\<close> or \<open>transaction\<close> gives that parameter a second value, and the call raises
  \<open>TypeError\<close> before \<open>f\<close> runs.
\<close>

definition binds_twice :: "(string \<times> pyval) list \<Rightarrow> bool" where
  "binds_twice kwargs =
     (''cls'' \<in> set (map fst kwargs) \<or> ''transaction'' \<in> set (map fst kwargs))"

text \<open>
  \<open>Model.save\<close>, called as \<open>self.save(transaction)\<close>. The result is what the call
  returns or raises, the instance afterwards, and the log afterwards.
\<close>

definition save ::
  "database \<Rightarrow> schema \<Rightarrow> nat option \<Rightarrow> model \<Rightarrow> db_call list \<Rightarrow>
   (error + unit) \<times> model \<times> db_call list" where
  "save db sch tx self log =
     (if shadowed self ''save'' then (Inl TypeError, self, log)
      else if persisted self then
        (case changes sch self of
           Inl e \<Rightarrow> (Inl e, self, log)
         | Inr changed_values \<Rightarrow>
             (if changed_values \<noteq> [] then
                (case model_id sch self of
                   Inl e \<Rightarrow> (Inl e, self, log)
                 | Inr ident \<Rightarrow>
                     (if binds_twice (dict_update changed_values ident) then
                        (Inl TypeError, self, log)
                      else
                        (case update db sch tx (dict_update changed_values ident) log of
                           (r, log') \<Rightarrow> (r, self, log'))))
              else (Inr (), self, log)))
      else
        (case values_of sch self of
           Inl e \<Rightarrow> (Inl e, self, log)
         | Inr vals \<Rightarrow>
             (if binds_twice vals then (Inl TypeError, self, log)
              else
                (case create db sch tx vals log of
                   (Inl e, log') \<Rightarrow> (Inl e, self, log')
                 | (Inr _, log') \<Rightarrow> (Inr (), self\<lparr>persisted := True\<rparr>, log')))))"

section \<open>Reads\<close>

text \<open>\<open>[key[column] for column in cls.primary_keys]\<close> for every key of \<open>find_multi\<close>.\<close>

fun key_values :: "schema \<Rightarrow> (string \<times> pyval) list list \<Rightarrow> error + pyval list list" where
  "key_values sch [] = Inr []"
| "key_values sch (key # keys) =
     (case lookup_all key (primary_keys sch) of
        Inl e \<Rightarrow> Inl e
      | Inr kv \<Rightarrow>
          (case key_values sch keys of
             Inl e \<Rightarrow> Inl e
           | Inr kvs \<Rightarrow> Inr (kv # kvs)))"

text \<open>
  \<open>ModelApi._results_to_models\<close>: each row zipped with the columns and given to
  \<open>__init__\<close> with \<open>persisted=True\<close>.
\<close>

fun results_to_models :: "schema \<Rightarrow> pyval list list \<Rightarrow> error + model list" where
  "results_to_models sch [] = Inr []"
| "results_to_models sch (result # rest) =
     (case init sch (map_of (zip (columns sch) result)) True of
        Inl e \<Rightarrow> Inl e
      | Inr item \<Rightarrow>
          (case results_to_models sch rest of
             Inl e \<Rightarrow> Inl e
           | Inr items \<Rightarrow> Inr (item # items)))"

text \<open>\<open>ModelApi.find_multi\<close> and \<open>ModelApi.find\<close>.\<close>

definition find_multi ::
  "database \<Rightarrow> schema \<Rightarrow> nat option \<Rightarrow> (string \<times> pyval) list list \<Rightarrow> db_call list \<Rightarrow>
   (error + model list) \<times> db_call list" where
  "find_multi db sch tx keys log =
     (case key_values sch keys of
        Inl e \<Rightarrow> (Inl e, log)
      | Inr kvs \<Rightarrow>
          (case execute_read db (Find tx (table sch) (columns sch) (KeySet kvs)) log of
             (Inl e, log') \<Rightarrow> (Inl e, log')
           | (Inr results, log') \<Rightarrow> (results_to_models sch results, log')))"

definition find ::
  "database \<Rightarrow> schema \<Rightarrow> nat option \<Rightarrow> (string \<times> pyval) list \<Rightarrow> db_call list \<Rightarrow>
   (error + model option) \<times> db_call list" where
  "find db sch tx keys log =
     (case find_multi db sch tx [keys] log of
        (Inl e, log') \<Rightarrow> (Inl e, log')
      | (Inr resources, log') \<Rightarrow>
          (Inr (case resources of [] \<Rightarrow> None | r # _ \<Rightarrow> Some r), log'))"

text \<open>
  The loop of \<open>Model.reload\<close>: every column that is not a primary key is assigned from
  the fetched object through \<open>__setattr__\<close>. An assignment that raises leaves the
  columns assigned before it overwritten.
\<close>

fun reload_columns ::
  "schema \<Rightarrow> model \<Rightarrow> string list \<Rightarrow> model \<Rightarrow> (error + unit) \<times> model" where
  "reload_columns sch updated_object [] self = (Inr (), self)"
| "reload_columns sch updated_object (column # rest) self =
     (if column \<notin> set (primary_keys sch) then
        (case getattr updated_object column of
           Inl e \<Rightarrow> (Inl e, self)
         | Inr v \<Rightarrow>
             (case setattr sch self column v of
                Inl e \<Rightarrow> (Inl e, self)
              | Inr self' \<Rightarrow> reload_columns sch updated_object rest self'))
      else reload_columns sch updated_object rest self)"

text \<open>
  \<open>Model.reload\<close>, called as \<open>self.reload(transaction)\<close>: \<open>Inr False\<close> when it returns
  \<open>None\<close> (no row), \<open>Inr True\<close> when it returns \<open>self\<close>; then the instance afterwards
  and the log afterwards.
\<close>

definition reload ::
  "database \<Rightarrow> schema \<Rightarrow> nat option \<Rightarrow> model \<Rightarrow> db_call list \<Rightarrow>
   (error + bool) \<times> model \<times> db_call list" where
  "reload db sch tx self log =
     (if shadowed self ''reload'' then (Inl TypeError, self, log)
      else
        (case model_id sch self of
           Inl e \<Rightarrow> (Inl e, self, log)
         | Inr ident \<Rightarrow>
             (if binds_twice ident then (Inl TypeError, self, log)
              else
                (case find db sch tx ident log of
                   (Inl e, log') \<Rightarrow> (Inl e, self, log')
                 | (Inr None, log') \<Rightarrow> (Inr False, self, log')
                 | (Inr (Some updated_object), log') \<Rightarrow>
                     (case reload_columns sch updated_object (columns sch) self of
                        (Inl e, self') \<Rightarrow> (Inl e, self', log')
                      | (Inr _, self') \<Rightarrow>
                          (Inr True, self'\<lparr>persisted := True\<rparr>, log'))))))"

section \<open>Batched writes\<close>

text \<open>
  \<open>save_batch\<close> sets a flag on each object of its list, and the same object may stand in
  the list twice: the instances live in a heap, and the list holds their addresses.
\<close>

type_synonym heap = "nat \<Rightarrow> model"

text \<open>
  \<open>work[api_method].append(value)\<close> on the \<open>defaultdict(list)\<close>: a method seen before
  keeps its place, a new one goes last.
\<close>

fun work_append ::
  "api_method \<Rightarrow> (string \<times> pyval) list \<Rightarrow> (api_method \<times> (string \<times> pyval) list list) list \<Rightarrow>
   (api_method \<times> (string \<times> pyval) list list) list" where
  "work_append m v [] = [(m, [v])]"
| "work_append m v ((m', vs) # work) =
     (if m' = m then (m', vs @ [v]) # work else (m', vs) # work_append m v work)"

text \<open>The first loop of \<open>save_batch\<close>.\<close>

fun partition_models ::
  "schema \<Rightarrow> bool \<Rightarrow> nat list \<Rightarrow> heap \<Rightarrow> (api_method \<times> (string \<times> pyval) list list) list \<Rightarrow>
   (error + (api_method \<times> (string \<times> pyval) list list) list) \<times> heap" where
  "partition_models sch force_write [] h work = (Inr work, h)"
| "partition_models sch force_write (m # models) h work =
     (case getattrs (h m) (columns sch) of
        Inl e \<Rightarrow> (Inl e, h)
      | Inr v \<Rightarrow>
          (let api_method =
                 (if force_write then Upsert
                  else if persisted (h m) then Update
                  else Insert)
           in partition_models sch force_write models
                (h(m := (h m)\<lparr>persisted := True\<rparr>)) (work_append api_method v work)))"

text \<open>The second loop of \<open>save_batch\<close>: one \<open>_execute_write\<close> per entry of \<open>work\<close>.\<close>

fun write_groups ::
  "database \<Rightarrow> schema \<Rightarrow> nat option \<Rightarrow> (api_method \<times> (string \<times> pyval) list list) list \<Rightarrow>
   db_call list \<Rightarrow> (error + unit) \<times> db_call list" where
  "write_groups db sch tx [] log = (Inr (), log)"
| "write_groups db sch tx ((api_method, vs) # work) log =
     (case execute_write db sch api_method tx vs log of
        (Inl e, log') \<Rightarrow> (Inl e, log')
      | (Inr _, log') \<Rightarrow> write_groups db sch tx work log')"

text \<open>\<open>ModelApi.save_batch(transaction, models, force_write)\<close>.\<close>

definition save_batch ::
  "database \<Rightarrow> schema \<Rightarrow> nat option \<Rightarrow> nat list \<Rightarrow> bool \<Rightarrow> heap \<Rightarrow> db_call list \<Rightarrow>
   (error + unit) \<times> heap \<times> db_call list" where
  "save_batch db sch tx models force_write h log =
     (case partition_models sch force_write models h [] of
        (Inl e, h') \<Rightarrow> (Inl e, h', log)
      | (Inr work, h') \<Rightarrow>
          (case write_groups db sch tx work log of
             (r, log') \<Rightarrow> (r, h', log')))"

section \<open>Queries by condition\<close>

text \<open>
  Modelled from the spec: the two conditions of the \<open>condition\<close> module that \<open>model.py\<close>
  builds, \<open>in_list(column, values)\<close> and \<open>equal_to(column, value)\<close>.
\<close>

datatype condition = InList string "pyval list" | EqualTo string pyval

text \<open>
  Modelled from the spec: a query object of the \<open>query\<close> module (\<open>sql()\<close>,
  \<open>parameters()\<close>, \<open>types()\<close>, \<open>process_results\<close>), and the two constructors
  \<open>SelectQuery\<close> and \<open>CountQuery\<close> as parameters.
\<close>

record 'r query =
  sql :: string
  parameters :: "(string \<times> pyval) list"
  types :: "(string \<times> string) list"
  process_results :: "pyval list list \<Rightarrow> error + 'r"

record query_module =
  SelectQuery :: "schema \<Rightarrow> condition list \<Rightarrow> model list query"
  CountQuery :: "schema \<Rightarrow> condition list \<Rightarrow> int query"

text \<open>\<open>ModelApi.where\<close> and \<open>ModelApi.count\<close>.\<close>

definition where_conditions ::
  "database \<Rightarrow> query_module \<Rightarrow> schema \<Rightarrow> nat option \<Rightarrow> condition list \<Rightarrow> db_call list \<Rightarrow>
   (error + model list) \<times> db_call list" where
  "where_conditions db q sch tx conditions log =
     (let builder = SelectQuery q sch conditions in
      case execute_read db (SqlQuery tx (sql builder) (parameters builder) (types builder)) log of
        (Inl e, log') \<Rightarrow> (Inl e, log')
      | (Inr results, log') \<Rightarrow> (process_results builder results, log'))"

definition count_conditions ::
  "database \<Rightarrow> query_module \<Rightarrow> schema \<Rightarrow> nat option \<Rightarrow> condition list \<Rightarrow> db_call list \<Rightarrow>
   (error + int) \<times> db_call list" where
  "count_conditions db q sch tx conditions log =
     (let builder = CountQuery q sch conditions in
      case execute_read db (SqlQuery tx (sql builder) (parameters builder) (types builder)) log of
        (Inl e, log') \<Rightarrow> (Inl e, log')
      | (Inr results, log') \<Rightarrow> (process_results builder results, log'))"

text \<open>
  The loop shared by \<open>where_equal\<close> and \<open>count_equal\<close>: one condition appended per
  keyword constraint, in the order of the constraints.
\<close>

fun constraint_conditions :: "(string \<times> pyval) list \<Rightarrow> condition list \<Rightarrow> condition list" where
  "constraint_conditions [] conditions = conditions"
| "constraint_conditions ((column, v) # rest) conditions =
     (case v of
        PList vs \<Rightarrow> constraint_conditions rest (conditions @ [InList column vs])
      | _ \<Rightarrow> constraint_conditions rest (conditions @ [EqualTo column v]))"

text \<open>\<open>ModelApi.where_equal\<close> and \<open>ModelApi.count_equal\<close>.\<close>

definition where_equal ::
  "database \<Rightarrow> query_module \<Rightarrow> schema \<Rightarrow> nat option \<Rightarrow> (string \<times> pyval) list \<Rightarrow> db_call list \<Rightarrow>
   (error + model list) \<times> db_call list" where
  "where_equal db q sch tx constraints log =
     where_conditions db q sch tx (constraint_conditions constraints []) log"

definition count_equal ::
  "database \<Rightarrow> query_module \<Rightarrow> schema \<Rightarrow> nat option \<Rightarrow> (string \<times> pyval) list \<Rightarrow> db_call list \<Rightarrow>
   (error + int) \<times> db_call list" where
  "count_equal db q sch tx constraints log =
     count_conditions db q sch tx (constraint_conditions constraints []) log"

text \<open>
  The translation of one keyword constraint in the spec's words: a list-valued
  constraint becomes a membership condition, a scalar one an equality condition.
\<close>

fun condition_of :: "string \<times> pyval \<Rightarrow> condition" where
  "condition_of (column, PList vs) = InList column vs"
| "condition_of (column, v) = EqualTo column v"

section \<open>The write contract in the spec's words\<close>

text \<open>
  A value passes when its key is a declared column whose field accepts it. A mapping is
  fit to be written under the shared column list \<open>cols\<close> when each of its keys is a
  declared column, its key set is that of \<open>cols\<close>, and each of its values passes. Its
  row lists its values in the order of \<open>cols\<close>.
\<close>

definition value_ok :: "schema \<Rightarrow> string \<times> pyval \<Rightarrow> bool" where
  "value_ok sch kv =
     (case map_of (meta_fields sch) (fst kv) of
        None \<Rightarrow> False
      | Some f \<Rightarrow> validate f (snd kv) = None)"

definition mapping_ok :: "schema \<Rightarrow> string list \<Rightarrow> (string \<times> pyval) list \<Rightarrow> bool" where
  "mapping_ok sch cols d =
     (set (map fst d) \<subseteq> set (columns sch) \<and> set (map fst d) = set cols \<and>
      list_all (value_ok sch) d)"

definition dict_row :: "string list \<Rightarrow> (string \<times> pyval) list \<Rightarrow> pyval list" where
  "dict_row cols d = map (dict_get (map_of d)) cols"

section \<open>The batch in the spec's words\<close>

text \<open>
  The data-model invariant of an instance: every column has a current value.
\<close>

definition has_columns :: "schema \<Rightarrow> model \<Rightarrow> bool" where
  "has_columns sch self = list_all (\<lambda>c. attrs self c \<noteq> None) (columns sch)"

text \<open>The row of an instance: the value of every column, in column order.\<close>

definition row_of :: "schema \<Rightarrow> model \<Rightarrow> pyval list" where
  "row_of sch self = map (dict_get (attrs self)) (columns sch)"

text \<open>
  The flag of the \<open>i\<close>-th instance of the list when the partition reaches it: set
  before the call, or set by the partition itself when the same object stands earlier
  in the list. The operation kind it routes to: upsert under \<open>force_write\<close>; otherwise
  update if the flag is set, else insert.
\<close>

definition reached_flag :: "heap \<Rightarrow> nat list \<Rightarrow> nat \<Rightarrow> bool" where
  "reached_flag h ms i = (persisted (h (ms ! i)) \<or> ms ! i \<in> set (take i ms))"

definition kind_at :: "bool \<Rightarrow> heap \<Rightarrow> nat list \<Rightarrow> nat \<Rightarrow> api_method" where
  "kind_at force_write h ms i =
     (if force_write then Upsert else if reached_flag h ms i then Update else Insert)"

definition routed :: "schema \<Rightarrow> bool \<Rightarrow> heap \<Rightarrow> nat list \<Rightarrow> (api_method \<times> pyval list) list" where
  "routed sch force_write h ms =
     map (\<lambda>i. (kind_at force_write h ms i, row_of sch (h (ms ! i)))) [0..<length ms]"

text \<open>
  One group per kind that occurs, in the order of first occurrence, holding the items of
  that kind in their order.
\<close>

definition group_by_kind :: "(api_method \<times> 'a) list \<Rightarrow> (api_method \<times> 'a list) list" where
  "group_by_kind kvs =
     map (\<lambda>k. (k, map snd (filter (\<lambda>kv. fst kv = k) kvs))) (rev (remdups (rev (map fst kvs))))"

text \<open>One write call per group, with all rows of the group.\<close>

definition batch_calls :: "schema \<Rightarrow> nat option \<Rightarrow> bool \<Rightarrow> heap \<Rightarrow> nat list \<Rightarrow> db_call list" where
  "batch_calls sch tx force_write h ms =
     map (\<lambda>(k, rows). Write k tx (table sch) (Some (columns sch)) rows)
       (group_by_kind (routed sch force_write h ms))"


text \<open>
  Every column value of the instance passes its field: what \<open>__init__\<close> checks of the
  values it is given and \<open>__setattr__\<close> of each value assigned.
\<close>

definition values_valid :: "schema \<Rightarrow> model \<Rightarrow> bool" where
  "values_valid sch self =
     list_all (\<lambda>c. value_ok sch (c, dict_get (attrs self) c)) (columns sch)"

text \<open>The heap with every instance of the list marked persisted.\<close>

definition mark_persisted :: "nat list \<Rightarrow> heap \<Rightarrow> heap" where
  "mark_persisted ms h = (\<lambda>x. if x \<in> set ms then (h x)\<lparr>persisted := True\<rparr> else h x)"

section \<open>A concrete record type\<close>

text \<open>
  A table \<open>users\<close> with an integer primary key \<open>uid\<close>, a string column \<open>name\<close> that
  must be set, a nullable integer column \<open>age\<close>, and a relation \<open>posts\<close>.
\<close>

definition integer_field :: "bool \<Rightarrow> field" where
  "integer_field null =
     \<lparr> validate = (\<lambda>v. case v of
         PNone \<Rightarrow> (if null then None else Some [PStr ''None set for non-nullable field''])
       | PInt i \<Rightarrow> None
       | _ \<Rightarrow> Some [PStr ''not of type int'', v]) \<rparr>"

definition string_field :: "bool \<Rightarrow> field" where
  "string_field null =
     \<lparr> validate = (\<lambda>v. case v of
         PNone \<Rightarrow> (if null then None else Some [PStr ''None set for non-nullable field''])
       | PStr s \<Rightarrow> None
       | _ \<Rightarrow> Some [PStr ''not of type str'', v]) \<rparr>"

definition users :: schema where
  "users =
     \<lparr> table = ''users'', name = ''User'',
       meta_fields =
         [(''uid'', integer_field False), (''name'', string_field False),
          (''age'', integer_field True)],
       primary_keys = [''uid''],
       relations = [''posts''] \<rparr>"

text \<open>A database that accepts every write and holds no row, and one that raises.\<close>

definition empty_db :: database where
  "empty_db log call = Returns []"

definition failing_db :: database where
  "failing_db log call = Raises"

text \<open>A database whose only row of \<open>users\<close> is \<open>(1, bob, 30)\<close>.\<close>

definition bob_db :: database where
  "bob_db log call = Returns [[PInt 1, PStr ''bob'', PInt 30]]"

text \<open>
  The user \<open>(1, ann, None)\<close>: as read from the store, and the same after \<open>name\<close> was
  assigned \<open>amy\<close>.
\<close>

definition ann :: model where
  "ann =
     \<lparr> attrs = [''uid'' \<mapsto> PInt 1, ''name'' \<mapsto> PStr ''ann'', ''age'' \<mapsto> PNone],
       start_values = [''uid'' \<mapsto> PInt 1, ''name'' \<mapsto> PStr ''ann'', ''age'' \<mapsto> PNone],
       persisted = True \<rparr>"

definition amy :: model where
  "amy = ann\<lparr>attrs := (attrs ann)(''name'' \<mapsto> PStr ''amy'')\<rparr>"

text \<open>
  The user \<open>(2, bea, None)\<close> as constructed by the application, not yet saved, and the
  same after \<open>name\<close> was assigned \<open>bee\<close>.
\<close>

definition bea :: model where
  "bea =
     \<lparr> attrs = [''uid'' \<mapsto> PInt 2, ''name'' \<mapsto> PStr ''bea'', ''age'' \<mapsto> PNone],
       start_values = [''uid'' \<mapsto> PInt 2, ''name'' \<mapsto> PStr ''bea'', ''age'' \<mapsto> PNone],
       persisted = False \<rparr>"

definition bee :: model where
  "bee = bea\<lparr>attrs := (attrs bea)(''name'' \<mapsto> PStr ''bee'')\<rparr>"

text \<open>The user \<open>ann\<close> after \<open>reload()\<close> fetched the row \<open>(1, bob, 30)\<close>.\<close>

definition ann_reloaded :: model where
  "ann_reloaded =
     \<lparr> attrs = [''uid'' \<mapsto> PInt 1, ''name'' \<mapsto> PStr ''bob'', ''age'' \<mapsto> PInt 30],
       start_values = [''uid'' \<mapsto> PInt 1, ''name'' \<mapsto> PStr ''ann'', ''age'' \<mapsto> PNone],
       persisted = True \<rparr>"

text \<open>A heap with the unsaved \<open>bea\<close> at address 0 and the persisted \<open>ann\<close> elsewhere.\<close>

definition bea_ann :: heap where
  "bea_ann = (\<lambda>x. if x = 0 then bea else ann)"

section \<open>Facts about the concrete record type\<close>

lemma users_columns: "columns users = [''uid'', ''name'', ''age'']"
  by (simp add: columns_def users_def)

lemma users_primary_keys: "primary_keys users = [''uid'']"
  by (simp add: users_def)

lemma users_relations: "relations users = [''posts'']"
  by (simp add: users_def)

lemma shadowed_persisted: "shadowed (self\<lparr>persisted := p\<rparr>) m = shadowed self m"
  by (simp add: shadowed_def)

lemma column_named_id_shadows:
  "attrs self ''id'' = Some v \<Longrightarrow> model_id sch self = Inl TypeError"
  by (simp add: model_id_def shadowed_def)

lemma users_shadowed:
  "shadowed ann m = (m \<in> set [''uid'', ''name'', ''age''])"
  "shadowed amy m = (m \<in> set [''uid'', ''name'', ''age''])"
  "shadowed bea m = (m \<in> set [''uid'', ''name'', ''age''])"
  "shadowed bee m = (m \<in> set [''uid'', ''name'', ''age''])"
  "shadowed ann_reloaded m = (m \<in> set [''uid'', ''name'', ''age''])"
  by (auto simp: shadowed_def ann_def amy_def bea_def bee_def ann_reloaded_def)

section \<open>Attribute guards\<close>

text \<open>
  C6. Assigning to a primary-key column of an instance always raises
  \<open>AttributeError\<close> with the attribute's name, whatever the value, the current one
  included; the instance is not updated (the assignment yields the error and no new
  instance). Assigning to a relation attribute raises in the same way.
\<close>

theorem setattr_guards:
  "(attr \<in> set (primary_keys sch) \<and> attr \<in> set (columns sch) \<longrightarrow>
      setattr sch self attr v = Inl (AttributeError [PStr attr])) \<and>
   (attr \<in> set (relations sch) \<longrightarrow>
      setattr sch self attr v = Inl (AttributeError [PStr attr]))"
  by (simp add: setattr_def)

theorem setattr_guards_witness:
  "attrs ann ''uid'' = Some (PInt 1) \<and>
   setattr users ann ''uid'' (PInt 1) = Inl (AttributeError [PStr ''uid'']) \<and>
   setattr users ann ''posts'' PNone = Inl (AttributeError [PStr ''posts''])"
  using setattr_guards [of "''uid''" users ann "PInt 1"]
    setattr_guards [of "''posts''" users ann PNone]
  by (simp add: users_columns users_primary_keys users_relations) (simp add: ann_def)

section \<open>Keyword constraints\<close>

lemma constraint_conditions_map:
  "constraint_conditions cs acc = acc @ map condition_of cs"
  by (induction cs acc rule: constraint_conditions.induct)
     (auto split: pyval.splits)

text \<open>
  C8. \<open>where_equal\<close> and \<open>count_equal\<close> turn each keyword constraint into one
  condition, in order, a list-valued constraint into \<open>in_list\<close> and any other into
  \<open>equal_to\<close>, and are \<open>where\<close> and \<open>count\<close> called with exactly those conditions.
\<close>

theorem equal_variants_delegate:
  "where_equal db q sch tx cs log = where_conditions db q sch tx (map condition_of cs) log \<and>
   count_equal db q sch tx cs log = count_conditions db q sch tx (map condition_of cs) log"
  by (simp add: where_equal_def count_equal_def constraint_conditions_map)

section \<open>Point reads\<close>

lemma lookup_all_missing:
  "column \<in> set cs \<Longrightarrow> map_of d column = None \<Longrightarrow>
   \<exists>c. c \<in> set cs \<and> map_of d c = None \<and> lookup_all d cs = Inl (KeyError c)"
  by (induction cs) (auto split: option.splits sum.splits)

lemma lookup_all_Inl:
  "lookup_all d cs = Inl e \<Longrightarrow> \<exists>c. c \<in> set cs \<and> map_of d c = None \<and> e = KeyError c"
  by (induction cs arbitrary: e) (auto split: option.splits sum.splits)

lemma key_values_missing:
  "key \<in> set keys \<Longrightarrow> column \<in> set (primary_keys sch) \<Longrightarrow> map_of key column = None \<Longrightarrow>
   \<exists>k c. k \<in> set keys \<and> c \<in> set (primary_keys sch) \<and> map_of k c = None \<and>
     key_values sch keys = Inl (KeyError c)"
proof (induction keys)
  case Nil
  then show ?case by simp
next
  case (Cons k keys)
  show ?case
  proof (cases "lookup_all k (primary_keys sch)")
    case (Inl e)
    then obtain c where "c \<in> set (primary_keys sch)" "map_of k c = None" "e = KeyError c"
      using lookup_all_Inl by blast
    with Inl show ?thesis by auto
  next
    case (Inr kv)
    have "key \<noteq> k"
    proof
      assume "key = k"
      with Cons.prems(2,3) lookup_all_missing [of column "primary_keys sch" k] Inr
      show False by auto
    qed
    with Cons.prems have "key \<in> set keys" by simp
    from Cons.IH [OF this Cons.prems(2,3)] Inr show ?thesis by auto
  qed
qed

text \<open>
  C10. When a key mapping given to \<open>find_multi\<close> has no entry for some primary-key
  column, \<open>find_multi\<close> raises \<open>KeyError\<close> for a primary-key column while it builds the
  keyset, and the log of database calls is as before: no read was issued. The same
  holds of \<open>find\<close>, whose keyword arguments are the one key mapping.
\<close>

theorem find_multi_requires_primary_keys:
  assumes "column \<in> set (primary_keys sch)" and "map_of key column = None"
  shows "(key \<in> set keys \<longrightarrow>
           (\<exists>c. c \<in> set (primary_keys sch) \<and>
              find_multi db sch tx keys log = (Inl (KeyError c), log))) \<and>
         (\<exists>c. c \<in> set (primary_keys sch) \<and> map_of key c = None \<and>
              find db sch tx key log = (Inl (KeyError c), log))"
proof (intro conjI impI)
  assume "key \<in> set keys"
  from key_values_missing [OF this assms] show
    "\<exists>c. c \<in> set (primary_keys sch) \<and>
       find_multi db sch tx keys log = (Inl (KeyError c), log)"
    by (auto simp: find_multi_def)
next
  have "key \<in> set [key]" by simp
  from key_values_missing [OF this assms] show
    "\<exists>c. c \<in> set (primary_keys sch) \<and> map_of key c = None \<and>
       find db sch tx key log = (Inl (KeyError c), log)"
    by (auto simp: find_def find_multi_def)
qed

theorem find_multi_requires_primary_keys_witness:
  "find_multi bob_db users (Some 7) [[(''uid'', PInt 1)], [(''name'', PStr ''bob'')]] [] =
     (Inl (KeyError ''uid''), []) \<and>
   find bob_db users None [(''name'', PStr ''bob'')] [] = (Inl (KeyError ''uid''), [])"
  using find_multi_requires_primary_keys [where column = "''uid''" and sch = users
      and key = "[(''name'', PStr ''bob'')]"
      and keys = "[[(''uid'', PInt 1)], [(''name'', PStr ''bob'')]]"
      and db = bob_db and tx = "Some 7" and log = "[]"]
    find_multi_requires_primary_keys [where column = "''uid''" and sch = users
      and key = "[(''name'', PStr ''bob'')]" and keys = "[]"
      and db = bob_db and tx = None and log = "[]"]
  by (simp add: users_primary_keys)

section \<open>Construction\<close>

lemma missing_keys_eq: "missing_keys sch vals = set (primary_keys sch) - dom vals"
  by (auto simp: missing_keys_def)

lemma validate_columns_rejects:
  assumes "column \<in> set cs"
    and "map_of (meta_fields sch) column = Some f"
    and "validate f (dict_get vals column) \<noteq> None"
    and "set cs \<subseteq> set (columns sch)"
  shows "\<exists>c g args. c \<in> set cs \<and> map_of (meta_fields sch) c = Some g \<and>
           validate g (dict_get vals c) = Some args \<and>
           validate_columns sch vals cs = Inl (ValueError args)"
  using assms
proof (induction cs)
  case Nil
  then show ?case by simp
next
  case (Cons c cs)
  from Cons.prems(4) have "c \<in> set (columns sch)" by simp
  then have "map_of (meta_fields sch) c \<noteq> None"
    by (simp add: columns_def map_of_eq_None_iff)
  then obtain g where g: "map_of (meta_fields sch) c = Some g" by blast
  show ?case
  proof (cases "validate g (dict_get vals c)")
    case (Some args)
    with g show ?thesis by (auto simp: validate_value_def)
  next
    case None
    with g Cons.prems(2,3) have "column \<noteq> c" by auto
    with Cons.prems have "column \<in> set cs" "set cs \<subseteq> set (columns sch)" by auto
    from Cons.IH [OF this(1) Cons.prems(2,3) this(2)] g None show ?thesis
      by (auto simp: validate_value_def)
  qed
qed

lemma validate_columns_first:
  "list_all (\<lambda>c. value_ok sch (c, dict_get vals c)) pre \<Longrightarrow>
   map_of (meta_fields sch) column = Some f \<Longrightarrow>
   validate f (dict_get vals column) = Some args \<Longrightarrow>
   validate_columns sch vals (pre @ column # post) = Inl (ValueError args)"
  by (induction pre) (auto simp: validate_value_def value_ok_def split: option.splits)

text \<open>
  C7, as the code has it. Construction with \<open>persisted=False\<close> raises the missing-key
  error, listing the primary-key columns absent from the input, whenever one is absent;
  that check comes first. It fails whenever the value of a declared column is rejected by
  the column's field; when no primary key is missing it raises \<open>ValueError\<close> with the
  arguments of the field's own validation error, unchanged, for the first column in
  column order whose value is rejected. In particular a field that is not nullable and is
  given \<open>None\<close>, or nothing, fails so. Construction with \<open>persisted=True\<close> makes neither
  check and always returns the populated instance.
\<close>

theorem init_checks:
  "(key \<in> set (primary_keys sch) \<and> vals key = None \<longrightarrow>
      init sch vals False =
        Inl (SpannerError (MissingPrimaryKeys (set (primary_keys sch) - dom vals)))) \<and>
   (map_of (meta_fields sch) column = Some f \<and> validate f (dict_get vals column) \<noteq> None \<longrightarrow>
      (\<exists>e. init sch vals False = Inl e) \<and>
      (set (primary_keys sch) \<subseteq> dom vals \<longrightarrow>
         (\<exists>c g args. map_of (meta_fields sch) c = Some g \<and>
            validate g (dict_get vals c) = Some args \<and>
            init sch vals False = Inl (ValueError args)))) \<and>
   (set (primary_keys sch) \<subseteq> dom vals \<and> columns sch = pre @ column # post \<and>
    list_all (\<lambda>c. value_ok sch (c, dict_get vals c)) pre \<and>
    map_of (meta_fields sch) column = Some f \<and>
    validate f (dict_get vals column) = Some args \<longrightarrow>
      init sch vals False = Inl (ValueError args)) \<and>
   (map_of (meta_fields sch) column = Some f \<and> \<not> nullable f \<and> dict_get vals column = PNone \<and>
    set (primary_keys sch) \<subseteq> dom vals \<longrightarrow>
      (\<exists>args. validate f PNone = Some args) \<and> (\<exists>args. init sch vals False = Inl (ValueError args))) \<and>
   init sch vals True = Inr (populate sch vals True)"
proof -
  have rej: "\<exists>c g args. map_of (meta_fields sch) c = Some g \<and>
            validate g (dict_get vals c) = Some args \<and>
            validate_columns sch vals (columns sch) = Inl (ValueError args)"
    if "map_of (meta_fields sch) col = Some h" "validate h (dict_get vals col) \<noteq> None" for col h
  proof -
    from that(1) have "col \<in> set (columns sch)"
      by (auto simp: columns_def dest: map_of_SomeD intro: rev_image_eqI)
    from validate_columns_rejects [OF this that] show ?thesis by auto
  qed
  have A: "init sch vals False =
        Inl (SpannerError (MissingPrimaryKeys (set (primary_keys sch) - dom vals)))"
    if "key \<in> set (primary_keys sch)" "vals key = None"
  proof -
    from that have "missing_keys sch vals \<noteq> {}" by (auto simp: missing_keys_eq)
    then show ?thesis by (simp add: init_def missing_keys_eq)
  qed
  have B: "\<exists>c g args. map_of (meta_fields sch) c = Some g \<and>
            validate g (dict_get vals c) = Some args \<and>
            init sch vals False = Inl (ValueError args)"
    if "map_of (meta_fields sch) col = Some h" "validate h (dict_get vals col) \<noteq> None"
      "set (primary_keys sch) \<subseteq> dom vals" for col h
  proof -
    from that(3) have mk: "missing_keys sch vals = {}" by (auto simp: missing_keys_eq)
    from rej [OF that(1,2)] obtain c g args where
      *: "map_of (meta_fields sch) c = Some g" "validate g (dict_get vals c) = Some args"
        "validate_columns sch vals (columns sch) = Inl (ValueError args)"
      by blast
    from *(3) mk have "init sch vals False = Inl (ValueError args)" by (simp add: init_def)
    with *(1,2) show ?thesis by blast
  qed
  have C: "\<exists>e. init sch vals False = Inl e"
    if "map_of (meta_fields sch) col = Some h" "validate h (dict_get vals col) \<noteq> None" for col h
    using rej [OF that] by (auto simp: init_def)
  have D: "(\<exists>args. validate f PNone = Some args) \<and> (\<exists>args. init sch vals False = Inl (ValueError args))"
    if "map_of (meta_fields sch) column = Some f" "\<not> nullable f" "dict_get vals column = PNone"
      "set (primary_keys sch) \<subseteq> dom vals"
  proof -
    from that(2,3) have v: "validate f (dict_get vals column) \<noteq> None" by (simp add: nullable_def)
    from B [OF that(1) v that(4)] that(2) show ?thesis by (auto simp: nullable_def)
  qed
  have E: "init sch vals True = Inr (populate sch vals True)" by (simp add: init_def)
  have F: "init sch vals False = Inl (ValueError args)"
    if "set (primary_keys sch) \<subseteq> dom vals" "columns sch = pre @ column # post"
      "list_all (\<lambda>c. value_ok sch (c, dict_get vals c)) pre"
      "map_of (meta_fields sch) column = Some f" "validate f (dict_get vals column) = Some args"
  proof -
    from that(1) have mk: "missing_keys sch vals = {}" by (auto simp: missing_keys_eq)
    from validate_columns_first [OF that(3,4,5), of post] that(2)
    have "validate_columns sch vals (columns sch) = Inl (ValueError args)" by simp
    with mk show ?thesis by (simp add: init_def)
  qed
  show ?thesis using A B C D E F by blast
qed


lemma users_name_field: "map_of (meta_fields users) ''name'' = Some (string_field False)"
  by (simp add: users_def)

lemma string_field_not_nullable: "\<not> nullable (string_field False)"
  by (simp add: nullable_def string_field_def)

lemma users_uid_field: "map_of (meta_fields users) ''uid'' = Some (integer_field False)"
  by (simp add: users_def)

lemma users_uid_ok: "value_ok users (''uid'', dict_get [''uid'' \<mapsto> PInt 1] ''uid'')"
  by (simp add: value_ok_def users_uid_field integer_field_def dict_get_def)

lemma name_none_rejected:
  "validate (string_field False) (dict_get [''uid'' \<mapsto> PInt 1] ''name'') =
     Some [PStr ''None set for non-nullable field'']"
  "validate (string_field False) (dict_get Map.empty ''name'') =
     Some [PStr ''None set for non-nullable field'']"
  by (simp_all add: string_field_def dict_get_def)

text \<open>
  The claim C7 fails where a primary key is missing and a column's value is rejected
  (here nothing at all is given): the error is the missing-key error, not a validation
  error. And the validation error that construction raises when \<open>name\<close> is not given
  carries the field's own message, which names no column.
\<close>

theorem init_checks_counterexample:
  "map_of (meta_fields users) ''name'' = Some (string_field False) \<and>
   validate (string_field False) (dict_get Map.empty ''name'') \<noteq> None \<and>
   init users Map.empty False = Inl (SpannerError (MissingPrimaryKeys {''uid''})) \<and>
   init users [''uid'' \<mapsto> PInt 1] False =
     Inl (ValueError [PStr ''None set for non-nullable field''])"
  by (simp add: users_name_field users_uid_field name_none_rejected init_def missing_keys_def
      users_primary_keys users_columns validate_value_def integer_field_def
      string_field_def dict_get_def)

theorem init_checks_witness:
  "init users [''name'' \<mapsto> PStr ''ann''] False =
     Inl (SpannerError (MissingPrimaryKeys {''uid''})) \<and>
   \<not> nullable (string_field False) \<and>
   columns users = [''uid''] @ ''name'' # [''age''] \<and>
   init users [''uid'' \<mapsto> PInt 1] False =
     Inl (ValueError [PStr ''None set for non-nullable field'']) \<and>
   init users [''uid'' \<mapsto> PInt 1] True = Inr (populate users [''uid'' \<mapsto> PInt 1] True)"
  using init_checks [where key = "''uid''" and sch = users and vals = "[''name'' \<mapsto> PStr ''ann'']"]
    init_checks [where column = "''name''" and f = "string_field False" and sch = users
      and vals = "[''uid'' \<mapsto> PInt 1]" and pre = "[''uid'']" and post = "[''age'']"
      and args = "[PStr ''None set for non-nullable field'']"]
  by (simp add: users_primary_keys users_name_field string_field_not_nullable users_columns
      users_uid_ok name_none_rejected)

section \<open>Saving an instance\<close>

lemma getattrs_keys: "getattrs self ks = Inr vals \<Longrightarrow> map fst vals = ks"
  by (induction ks arbitrary: vals) (auto split: sum.splits)

lemma lookup_all_sub:
  "distinct (map fst d) \<Longrightarrow> set kvs \<subseteq> set d \<Longrightarrow>
   lookup_all d (map fst kvs) = Inr (map snd kvs)"
  by (induction kvs) (auto simp: map_of_is_SomeI)

lemma lookup_all_own_keys:
  "distinct (map fst d) \<Longrightarrow> lookup_all d (map fst d) = Inr (map snd d)"
  by (rule lookup_all_sub) auto

lemma distinct_dict_update:
  "distinct (map fst d) \<Longrightarrow> distinct (map fst (dict_update d other))"
  unfolding dict_update_def
  by (induction other arbitrary: d) (auto simp: AList.distinct_update)

lemma changes_distinct:
  assumes "changes sch self = Inr ch" and "distinct (columns sch)"
  shows "distinct (map fst ch)"
proof -
  from assms(1) obtain vals where v: "values_of sch self = Inr vals"
    and ch: "ch = filter (\<lambda>(key, v). \<not> py_eq v (dict_get (start_values self) key)) vals"
    by (auto simp: changes_def split: sum.splits if_splits)
  from v have "map fst vals = columns sch" by (simp add: values_of_def getattrs_keys)
  with assms(2) have "distinct (map fst vals)" by simp
  with ch show ?thesis by (simp add: distinct_map_filter)
qed

lemma write_rows_single:
  assumes "write_rows sch [d] None [] = Inr (cols, vals)" and "distinct (map fst d)"
  shows "cols = Some (map fst d) \<and> vals = [map snd d]"
  using assms
  by (auto simp: lookup_all_own_keys Let_def split: if_splits sum.splits)

lemma changes_cong:
  "attrs a = attrs b \<Longrightarrow> start_values a = start_values b \<Longrightarrow> changes sch a = changes sch b"
proof -
  assume a: "attrs a = attrs b" and s: "start_values a = start_values b"
  have "getattrs a ks = getattrs b ks" for ks
    by (induction ks) (auto simp: getattr_def a split: option.splits)
  then show ?thesis by (simp add: changes_def values_of_def s a shadowed_def split: sum.splits)
qed

lemma save_frame:
  assumes "save db sch tx self log = (r, self', log')"
  shows "attrs self' = attrs self \<and> start_values self' = start_values self"
  using assms
  by (auto simp: save_def split: if_splits sum.splits prod.splits)

text \<open>
  C1, as the code has it. \<open>save\<close> changes neither the current values nor the baseline
  \<open>start_values\<close>, so \<open>changes()\<close> right after \<open>save()\<close> returns what it returned right
  before: an empty mapping only if no column differed from the baseline. For a persisted
  instance with differing columns, a \<open>save()\<close> that returns has issued one update whose
  row holds the differing columns and then the primary-key values.
\<close>

theorem save_keeps_changes:
  assumes "save db sch tx self log = (r, self', log')"
  shows "attrs self' = attrs self \<and> start_values self' = start_values self \<and>
         changes sch self' = changes sch self \<and>
         (r = Inr () \<and> persisted self \<and> changes sch self = Inr ch \<and> ch \<noteq> [] \<and>
          distinct (columns sch) \<longrightarrow>
            persisted self' \<and>
            (\<exists>ident. model_id sch self = Inr ident \<and>
               log' = log @ [Write Update tx (table sch)
                 (Some (map fst (dict_update ch ident))) [map snd (dict_update ch ident)]]))"
proof -
  from save_frame [OF assms] have fr: "attrs self' = attrs self" "start_values self' = start_values self"
    by simp_all
  have upd: "persisted self' \<and>
            (\<exists>ident. model_id sch self = Inr ident \<and>
               log' = log @ [Write Update tx (table sch)
                 (Some (map fst (dict_update ch ident))) [map snd (dict_update ch ident)]])"
    if r: "r = Inr ()" and p: "persisted self" and c: "changes sch self = Inr ch" and ne: "ch \<noteq> []"
      and d: "distinct (columns sch)"
  proof -
    from assms r p c ne obtain ident where i: "model_id sch self = Inr ident"
      and u: "update db sch tx (dict_update ch ident) log = (Inr (), log')" and s: "self' = self"
      by (auto simp: save_def split: sum.splits prod.splits if_splits)
    from changes_distinct [OF c d] have dd: "distinct (map fst (dict_update ch ident))"
      by (rule distinct_dict_update)
    from u obtain cols vals where
      w: "write_rows sch [dict_update ch ident] None [] = Inr (cols, vals)"
      and l: "log' = log @ [Write Update tx (table sch) cols vals]"
      by (auto simp: update_def execute_write_def db_invoke_def split: sum.splits prod.splits response.splits)
    from write_rows_single [OF w dd] l i s p show ?thesis by simp
  qed
  from fr changes_cong [OF fr] upd show ?thesis by blast
qed


lemma amy_values:
  "values_of users amy = Inr [(''uid'', PInt 1), (''name'', PStr ''amy''), (''age'', PNone)]"
  by (simp add: values_of_def users_columns getattr_def amy_def ann_def)

lemma amy_changes: "changes users amy = Inr [(''name'', PStr ''amy'')]"
  by (simp add: changes_def users_shadowed amy_values dict_get_def) (simp add: amy_def ann_def)

lemma amy_id: "model_id users amy = Inr [(''uid'', PInt 1)]"
  by (simp add: model_id_def users_shadowed users_primary_keys amy_values)

lemma users_fields:
  "map_of (meta_fields users) ''uid'' = Some (integer_field False)"
  "map_of (meta_fields users) ''name'' = Some (string_field False)"
  "map_of (meta_fields users) ''age'' = Some (integer_field True)"
  by (simp_all add: users_def)

lemma users_table: "table users = ''users''"
  by (simp add: users_def)

lemma amy_save:
  "save empty_db users None amy [] =
     (Inr (), amy,
      [Write Update None ''users'' (Some [''name'', ''uid'']) [[PStr ''amy'', PInt 1]]])"
proof -
  have d: "dict_update [(''name'', PStr ''amy'')] [(''uid'', PInt 1)] =
      [(''name'', PStr ''amy''), (''uid'', PInt 1)]"
    by (simp add: dict_update_def)
  have w: "write_rows users [[(''name'', PStr ''amy''), (''uid'', PInt 1)]] None [] =
      Inr (Some [''name'', ''uid''], [[PStr ''amy'', PInt 1]])"
    by (simp add: invalid_keys_def users_columns validate_value_def users_fields
        integer_field_def string_field_def)
  have p: "persisted amy" by (simp add: amy_def ann_def)
  have u: "update empty_db users None [(''name'', PStr ''amy''), (''uid'', PInt 1)] [] =
      (Inr (), [Write Update None ''users'' (Some [''name'', ''uid'']) [[PStr ''amy'', PInt 1]]])"
    by (simp add: update_def execute_write_def w db_invoke_def empty_db_def users_table
        del: write_rows.simps)
  show ?thesis
    by (simp add: save_def users_shadowed binds_twice_def p amy_changes amy_id d u)
qed

text \<open>
  The claim C1 fails on \<open>amy\<close>, a persisted instance whose \<open>name\<close> was assigned: \<open>save\<close>
  returns, the update is issued, and \<open>changes()\<close> still reports \<open>name\<close>.
\<close>

theorem save_changes_counterexample:
  "fst (save empty_db users None amy []) = Inr () \<and>
   changes users (fst (snd (save empty_db users None amy []))) = Inr [(''name'', PStr ''amy'')] \<and>
   snd (snd (save empty_db users None amy [])) =
     [Write Update None ''users'' (Some [''name'', ''uid'']) [[PStr ''amy'', PInt 1]]]"
  by (simp add: amy_save amy_changes)

theorem save_keeps_changes_witness:
  "save empty_db users None amy [] =
     (Inr (), amy,
      [Write Update None ''users'' (Some [''name'', ''uid'']) [[PStr ''amy'', PInt 1]]]) \<and>
   persisted amy \<and> distinct (columns users) \<and>
   changes users amy = Inr [(''name'', PStr ''amy'')] \<and>
   model_id users amy = Inr [(''uid'', PInt 1)] \<and>
   dict_update [(''name'', PStr ''amy'')] [(''uid'', PInt 1)] =
     [(''name'', PStr ''amy''), (''uid'', PInt 1)]"
  using save_keeps_changes [OF amy_save, where ch = "[(''name'', PStr ''amy'')]"]
  by (simp add: amy_save amy_changes amy_id users_columns dict_update_def)
    (simp add: amy_def ann_def)

lemma py_eq_list_refl: "(\<And>x. x \<in> set xs \<Longrightarrow> py_eq x x) \<Longrightarrow> py_eq_list xs xs"
  by (induction xs) auto

lemma py_eq_refl: "py_eq v v"
  by (induction v) (auto intro: py_eq_list_refl)

lemma fold_columns_apply:
  "fold (\<lambda>column d. d(column \<mapsto> g column)) cs m x = (if x \<in> set cs then Some (g x) else m x)"
  by (induction cs arbitrary: m) auto

lemma fold_relations_apply:
  "fold (\<lambda>relation d. case vals relation of None \<Rightarrow> d | Some v \<Rightarrow> d(relation \<mapsto> v)) rs m x =
     (if x \<in> set rs \<and> vals x \<noteq> None then vals x else m x)"
  by (induction rs arbitrary: m) (auto split: option.splits)

lemma populate_column:
  assumes "c \<in> set (columns sch)"
  shows "attrs (populate sch vals p) c = Some (dict_get vals c)"
    and "start_values (populate sch vals p) c = Some (dict_get vals c)"
  using assms
  by (auto simp: populate_def fold_columns_apply fold_relations_apply dict_get_def)

lemma getattrs_populate:
  "set cs \<subseteq> set (columns sch) \<Longrightarrow>
   getattrs (populate sch vals p) cs = Inr (map (\<lambda>c. (c, dict_get vals c)) cs)"
  by (induction cs) (auto simp: getattr_def populate_column)

lemma values_of_populate:
  "values_of sch (populate sch vals p) = Inr (map (\<lambda>c. (c, dict_get vals c)) (columns sch))"
  by (simp add: values_of_def getattrs_populate)

lemma changes_populate:
  assumes "\<not> shadowed (populate sch vals p) ''changes''"
  shows "changes sch (populate sch vals p) = Inr []"
proof -
  have "filter (\<lambda>(key, v). \<not> py_eq v (dict_get (start_values (populate sch vals p)) key))
          (map (\<lambda>c. (c, dict_get vals c)) cs) = []" if "set cs \<subseteq> set (columns sch)" for cs
    using that by (induction cs) (auto simp: populate_column dict_get_def py_eq_refl)
  with assms show ?thesis by (simp add: changes_def values_of_populate)
qed

lemma validate_columns_items:
  "validate_columns sch vals cs = Inr () \<Longrightarrow>
   validate_items sch (map (\<lambda>c. (c, dict_get vals c)) cs) = Inr ()"
  by (induction cs) (auto simp: validate_value_def split: option.splits sum.splits)

lemma invalid_keys_columns:
  "invalid_keys sch (map (\<lambda>c. (c, g c)) (columns sch)) = {}"
  by (auto simp: invalid_keys_def)

lemma write_rows_columns:
  assumes "validate_columns sch vals (columns sch) = Inr ()" and "distinct (columns sch)"
  shows "write_rows sch [map (\<lambda>c. (c, dict_get vals c)) (columns sch)] None [] =
           Inr (Some (columns sch), [map (dict_get vals) (columns sch)])"
proof -
  let ?d = "map (\<lambda>c. (c, dict_get vals c)) (columns sch)"
  have k: "map fst ?d = columns sch" by (simp add: comp_def)
  have s: "map snd ?d = map (dict_get vals) (columns sch)" by (simp add: comp_def)
  from assms(2) k have "distinct (map fst ?d)" by simp
  from lookup_all_own_keys [OF this] k s
  have l: "lookup_all ?d (columns sch) = Inr (map (dict_get vals) (columns sch))" by simp
  show ?thesis
    by (simp add: invalid_keys_columns k validate_columns_items [OF assms(1)] l Let_def
        del: map_map)
qed


lemma save_again_noop:
  assumes "changes sch self = Inr []" and "\<not> shadowed self ''save''"
  shows "save db sch tx (self\<lparr>persisted := True\<rparr>) log = (Inr (), self\<lparr>persisted := True\<rparr>, log)"
proof -
  have "changes sch (self\<lparr>persisted := True\<rparr>) = changes sch self"
    by (rule changes_cong) simp_all
  with assms show ?thesis by (simp add: save_def shadowed_persisted)
qed

text \<open>
  C4, as the code has it. For an instance with \<open>persisted\<close> false, a \<open>save()\<close> that
  returns has issued exactly one insert carrying the value of every column, and has set
  \<open>persisted\<close>; a second \<open>save()\<close> with no assignment in between issues no write when
  no column differs from the baseline taken at construction. That is so for an instance
  as \<open>__init__\<close> built it: its first \<open>save()\<close> validates, issues the one insert and,
  when the database returns, sets the flag.
\<close>

theorem save_fresh:
  "(\<not> persisted self \<and> save db sch tx self log = (Inr (), self', log') \<and>
    distinct (columns sch) \<longrightarrow>
      (\<exists>vals. values_of sch self = Inr vals \<and>
         log' = log @ [Write Insert tx (table sch) (Some (columns sch)) [map snd vals]]) \<and>
      self' = self\<lparr>persisted := True\<rparr> \<and>
      (changes sch self = Inr [] \<longrightarrow> save db' sch tx' self' log' = (Inr (), self', log'))) \<and>
   (init sch vals False = Inr fresh \<and> distinct (columns sch) \<and>
    \<not> shadowed fresh ''save'' \<and> \<not> shadowed fresh ''changes'' \<and>
    ''cls'' \<notin> set (columns sch) \<and> ''transaction'' \<notin> set (columns sch) \<longrightarrow>
      \<not> persisted fresh \<and> changes sch fresh = Inr [] \<and>
      save db sch tx fresh log =
        (case db log (Write Insert tx (table sch) (Some (columns sch))
                 [map (dict_get vals) (columns sch)]) of
           Raises \<Rightarrow>
             (Inl DatabaseError, fresh,
              log @ [Write Insert tx (table sch) (Some (columns sch))
                 [map (dict_get vals) (columns sch)]])
         | Returns rows \<Rightarrow>
             (Inr (), fresh\<lparr>persisted := True\<rparr>,
              log @ [Write Insert tx (table sch) (Some (columns sch))
                 [map (dict_get vals) (columns sch)]])))"
proof (intro conjI impI)
  assume a: "\<not> persisted self \<and> save db sch tx self log = (Inr (), self', log') \<and>
    distinct (columns sch)"
  then obtain vals where v: "values_of sch self = Inr vals"
    and c: "create db sch tx vals log = (Inr (), log')"
    and s: "self' = self\<lparr>persisted := True\<rparr>"
    and ns: "\<not> shadowed self ''save''"
    by (auto simp: save_def split: sum.splits prod.splits if_splits)
  from v have k: "map fst vals = columns sch" by (simp add: values_of_def getattrs_keys)
  with a have d: "distinct (map fst vals)" by simp
  from c obtain cols vs where
    w: "write_rows sch [vals] None [] = Inr (cols, vs)"
    and l: "log' = log @ [Write Insert tx (table sch) cols vs]"
    by (auto simp: create_def execute_write_def db_invoke_def
        split: sum.splits prod.splits response.splits)
  from write_rows_single [OF w d] l k v
  show "\<exists>vals. values_of sch self = Inr vals \<and>
         log' = log @ [Write Insert tx (table sch) (Some (columns sch)) [map snd vals]]"
    by simp
  from s show "self' = self\<lparr>persisted := True\<rparr>" .
  assume "changes sch self = Inr []"
  from save_again_noop [OF this ns] s
  show "save db' sch tx' self' log' = (Inr (), self', log')" by simp
next
  assume a: "init sch vals False = Inr fresh \<and> distinct (columns sch) \<and>
    \<not> shadowed fresh ''save'' \<and> \<not> shadowed fresh ''changes'' \<and>
    ''cls'' \<notin> set (columns sch) \<and> ''transaction'' \<notin> set (columns sch)"
  then have vc: "validate_columns sch vals (columns sch) = Inr ()"
    and f: "fresh = populate sch vals False"
    by (auto simp: init_def split: if_splits sum.splits)
  from f show "\<not> persisted fresh" by (simp add: populate_def)
  from f a show "changes sch fresh = Inr []" by (simp add: changes_populate)
  from a have d: "distinct (columns sch)" by simp
  have p: "\<not> persisted (populate sch vals False)" by (simp add: populate_def)
  from a f have ns: "\<not> shadowed (populate sch vals False) ''save''" by simp
  from a have nb: "\<not> binds_twice (map (\<lambda>c. (c, dict_get vals c)) (columns sch))"
    by (simp add: binds_twice_def comp_def)
  show "save db sch tx fresh log =
        (case db log (Write Insert tx (table sch) (Some (columns sch))
                 [map (dict_get vals) (columns sch)]) of
           Raises \<Rightarrow>
             (Inl DatabaseError, fresh,
              log @ [Write Insert tx (table sch) (Some (columns sch))
                 [map (dict_get vals) (columns sch)]])
         | Returns rows \<Rightarrow>
             (Inr (), fresh\<lparr>persisted := True\<rparr>,
              log @ [Write Insert tx (table sch) (Some (columns sch))
                 [map (dict_get vals) (columns sch)]]))"
    unfolding f
    by (simp add: save_def p ns nb values_of_populate create_def execute_write_def
        write_rows_columns [OF vc d] db_invoke_def split: response.splits
        del: write_rows.simps)
qed


lemma bea_init:
  "init users [''uid'' \<mapsto> PInt 2, ''name'' \<mapsto> PStr ''bea''] False = Inr bea"
  by (simp add: init_def missing_keys_def users_primary_keys users_columns validate_value_def
      users_fields integer_field_def string_field_def dict_get_def populate_def users_relations
      bea_def)

lemma bee_setattr: "setattr users bea ''name'' (PStr ''bee'') = Inr bee"
  by (simp add: setattr_def users_relations users_columns users_primary_keys validate_value_def
      users_fields string_field_def bee_def)

lemma bee_values:
  "values_of users bee = Inr [(''uid'', PInt 2), (''name'', PStr ''bee''), (''age'', PNone)]"
  by (simp add: values_of_def users_columns getattr_def bee_def bea_def)

lemma bee_changes: "changes users bee = Inr [(''name'', PStr ''bee'')]"
  by (simp add: changes_def users_shadowed bee_values dict_get_def) (simp add: bee_def bea_def)

lemma users_write_full:
  "write_rows users [[(''uid'', PInt i), (''name'', PStr n), (''age'', PNone)]] None [] =
     Inr (Some [''uid'', ''name'', ''age''], [[PInt i, PStr n, PNone]])"
  by (simp add: invalid_keys_def users_columns validate_value_def users_fields
      integer_field_def string_field_def)

lemma users_write_name:
  "write_rows users [[(''name'', PStr n), (''uid'', PInt i)]] None [] =
     Inr (Some [''name'', ''uid''], [[PStr n, PInt i]])"
  by (simp add: invalid_keys_def users_columns validate_value_def users_fields
      integer_field_def string_field_def)

lemma bee_save:
  "save empty_db users None bee [] =
     (Inr (), bee\<lparr>persisted := True\<rparr>,
      [Write Insert None ''users'' (Some [''uid'', ''name'', ''age''])
         [[PInt 2, PStr ''bee'', PNone]]])"
proof -
  have p: "\<not> persisted bee" by (simp add: bee_def bea_def)
  show ?thesis
    by (simp add: save_def users_shadowed binds_twice_def p bee_values create_def
        execute_write_def users_write_full db_invoke_def empty_db_def users_table
        del: write_rows.simps)
qed

lemma bee_save_again:
  "save empty_db users None (bee\<lparr>persisted := True\<rparr>)
     [Write Insert None ''users'' (Some [''uid'', ''name'', ''age''])
         [[PInt 2, PStr ''bee'', PNone]]] =
     (Inr (), bee\<lparr>persisted := True\<rparr>,
      [Write Insert None ''users'' (Some [''uid'', ''name'', ''age''])
         [[PInt 2, PStr ''bee'', PNone]],
       Write Update None ''users'' (Some [''name'', ''uid'']) [[PStr ''bee'', PInt 2]]])"
proof -
  have c: "changes users (bee\<lparr>persisted := True\<rparr>) = Inr [(''name'', PStr ''bee'')]"
    using changes_cong [of "bee\<lparr>persisted := True\<rparr>" bee users] by (simp add: bee_changes)
  have v: "values_of users (bee\<lparr>persisted := True\<rparr>) =
      Inr [(''uid'', PInt 2), (''name'', PStr ''bee''), (''age'', PNone)]"
    by (simp add: values_of_def users_columns getattr_def bee_def bea_def)
  have i: "model_id users (bee\<lparr>persisted := True\<rparr>) = Inr [(''uid'', PInt 2)]"
    by (simp add: model_id_def shadowed_persisted users_shadowed users_primary_keys v)
  show ?thesis
    by (simp add: save_def shadowed_persisted users_shadowed binds_twice_def c i dict_update_def
        update_def execute_write_def users_write_name db_invoke_def empty_db_def users_table
        del: write_rows.simps)
qed

text \<open>
  The claim C4 fails on \<open>bee\<close>: constructed with \<open>persisted=False\<close>, \<open>name\<close> assigned
  before the first \<open>save()\<close>. The first \<open>save()\<close> issues the insert; the second, with no
  assignment in between, issues an update, since \<open>name\<close> still differs from the baseline.
\<close>

theorem save_twice_counterexample:
  "init users [''uid'' \<mapsto> PInt 2, ''name'' \<mapsto> PStr ''bea''] False = Inr bea \<and>
   \<not> persisted bea \<and>
   setattr users bea ''name'' (PStr ''bee'') = Inr bee \<and>
   \<not> persisted bee \<and>
   save empty_db users None bee [] =
     (Inr (), bee\<lparr>persisted := True\<rparr>,
      [Write Insert None ''users'' (Some [''uid'', ''name'', ''age''])
         [[PInt 2, PStr ''bee'', PNone]]]) \<and>
   save empty_db users None (bee\<lparr>persisted := True\<rparr>)
     [Write Insert None ''users'' (Some [''uid'', ''name'', ''age''])
         [[PInt 2, PStr ''bee'', PNone]]] =
     (Inr (), bee\<lparr>persisted := True\<rparr>,
      [Write Insert None ''users'' (Some [''uid'', ''name'', ''age''])
         [[PInt 2, PStr ''bee'', PNone]],
       Write Update None ''users'' (Some [''name'', ''uid'']) [[PStr ''bee'', PInt 2]]])"
  by (simp add: bea_init bee_setattr bee_save bee_save_again) (simp add: bee_def bea_def)

theorem save_fresh_witness:
  "init users [''uid'' \<mapsto> PInt 2, ''name'' \<mapsto> PStr ''bea''] False = Inr bea \<and>
   distinct (columns users) \<and> \<not> persisted bea \<and> changes users bea = Inr [] \<and>
   save empty_db users None bea [] =
     (Inr (), bea\<lparr>persisted := True\<rparr>,
      [Write Insert None ''users'' (Some [''uid'', ''name'', ''age''])
         [[PInt 2, PStr ''bea'', PNone]]]) \<and>
   save empty_db users None (bea\<lparr>persisted := True\<rparr>)
     [Write Insert None ''users'' (Some [''uid'', ''name'', ''age''])
         [[PInt 2, PStr ''bea'', PNone]]] =
     (Inr (), bea\<lparr>persisted := True\<rparr>,
      [Write Insert None ''users'' (Some [''uid'', ''name'', ''age''])
         [[PInt 2, PStr ''bea'', PNone]]])"
proof -
  have d: "distinct (columns users)" by (simp add: users_columns)
  note f = save_fresh [where sch = users and vals = "[''uid'' \<mapsto> PInt 2, ''name'' \<mapsto> PStr ''bea'']"
      and fresh = bea and db = empty_db and tx = None and log = "[]" and self = bea
      and self' = "bea\<lparr>persisted := True\<rparr>" and db' = empty_db and tx' = None
      and log' = "[Write Insert None ''users'' (Some [''uid'', ''name'', ''age''])
         [[PInt 2, PStr ''bea'', PNone]]]"]
  from f bea_init d have np: "\<not> persisted bea" and c: "changes users bea = Inr []"
    and s: "save empty_db users None bea [] =
     (Inr (), bea\<lparr>persisted := True\<rparr>,
      [Write Insert None ''users'' (Some [''uid'', ''name'', ''age''])
         [[PInt 2, PStr ''bea'', PNone]]])"
    by (simp_all add: empty_db_def users_table users_columns dict_get_def users_shadowed)
  from f np s d c have "save empty_db users None (bea\<lparr>persisted := True\<rparr>)
     [Write Insert None ''users'' (Some [''uid'', ''name'', ''age''])
         [[PInt 2, PStr ''bea'', PNone]]] =
     (Inr (), bea\<lparr>persisted := True\<rparr>,
      [Write Insert None ''users'' (Some [''uid'', ''name'', ''age''])
         [[PInt 2, PStr ''bea'', PNone]]])"
    by simp
  with bea_init d np c s show ?thesis by simp
qed

section \<open>Reloading an instance\<close>

lemma setattr_Inr:
  "setattr sch self a v = Inr s \<Longrightarrow> s = self\<lparr>attrs := (attrs self)(a \<mapsto> v)\<rparr>"
  by (auto simp: setattr_def split: if_splits sum.splits)

lemma reload_columns_result:
  "reload_columns sch upd cs self = (Inr (), self') \<Longrightarrow>
   start_values self' = start_values self \<and> persisted self' = persisted self \<and>
   (\<forall>x. attrs self' x =
      (if x \<in> set cs \<and> x \<notin> set (primary_keys sch) then attrs upd x else attrs self x))"
proof (induction cs arbitrary: self)
  case Nil
  then show ?case by simp
next
  case (Cons c cs)
  show ?case
  proof (cases "c \<in> set (primary_keys sch)")
    case True
    with Cons.prems have "reload_columns sch upd cs self = (Inr (), self')" by simp
    from Cons.IH [OF this] True show ?thesis by auto
  next
    case False
    with Cons.prems obtain v s where g: "getattr upd c = Inr v"
      and sa: "setattr sch self c v = Inr s"
      and r: "reload_columns sch upd cs s = (Inr (), self')"
      by (auto split: sum.splits)
    from g have u: "attrs upd c = Some v" by (auto simp: getattr_def split: option.splits)
    from setattr_Inr [OF sa] have s: "s = self\<lparr>attrs := (attrs self)(c \<mapsto> v)\<rparr>" .
    from Cons.IH [OF r] s u False show ?thesis by auto
  qed
qed

lemma results_to_models_populate:
  "results_to_models sch rows =
     Inr (map (\<lambda>row. populate sch (map_of (zip (columns sch) row)) True) rows)"
  by (induction rows) (auto simp: init_def)

lemma find_Some:
  assumes "find db sch tx ident log = (Inr (Some upd), log')"
  shows "\<exists>kv row rest. lookup_all ident (primary_keys sch) = Inr kv \<and>
           db log (Find tx (table sch) (columns sch) (KeySet [kv])) = Returns (row # rest) \<and>
           log' = log @ [Find tx (table sch) (columns sch) (KeySet [kv])] \<and>
           upd = populate sch (map_of (zip (columns sch) row)) True"
proof -
  from assms obtain kv where kv: "lookup_all ident (primary_keys sch) = Inr kv"
    by (auto simp: find_def find_multi_def split: sum.splits prod.splits)
  let ?call = "Find tx (table sch) (columns sch) (KeySet [kv])"
  from assms kv obtain rows where rows: "db log ?call = Returns rows"
    and l: "log' = log @ [?call]"
    and u: "(case map (\<lambda>row. populate sch (map_of (zip (columns sch) row)) True) rows of
              [] \<Rightarrow> None | r # _ \<Rightarrow> Some r) = Some upd"
    by (auto simp: find_def find_multi_def execute_read_def db_invoke_def
        results_to_models_populate split: sum.splits prod.splits response.splits)
  from u obtain row rest where "rows = row # rest"
    and "upd = populate sch (map_of (zip (columns sch) row)) True"
    by (cases rows) auto
  with kv rows l show ?thesis by blast
qed

text \<open>
  C2, as the code has it. A \<open>reload()\<close> that returns the instance has read the row by
  the instance's primary key, has overwritten every column that is not a primary key
  with the value fetched for it, has left every other attribute alone, and has set
  \<open>persisted\<close>. The baseline \<open>start_values\<close> is as before the reload, so \<open>changes()\<close>
  afterwards reports the columns whose value differs from the old baseline.
\<close>

theorem reload_keeps_baseline:
  assumes "reload db sch tx self log = (Inr True, self', log')"
  shows "\<exists>ident kv row rest.
           model_id sch self = Inr ident \<and> lookup_all ident (primary_keys sch) = Inr kv \<and>
           db log (Find tx (table sch) (columns sch) (KeySet [kv])) = Returns (row # rest) \<and>
           log' = log @ [Find tx (table sch) (columns sch) (KeySet [kv])] \<and>
           (\<forall>c \<in> set (columns sch) - set (primary_keys sch).
              attrs self' c = Some (dict_get (map_of (zip (columns sch) row)) c)) \<and>
           (\<forall>c. c \<notin> set (columns sch) - set (primary_keys sch) \<longrightarrow> attrs self' c = attrs self c) \<and>
           persisted self' \<and>
           start_values self' = start_values self \<and>
           changes sch self' =
             (if shadowed self' ''changes'' then Inl TypeError
              else
                (case values_of sch self' of
                   Inl e \<Rightarrow> Inl e
                 | Inr vals \<Rightarrow>
                     Inr (filter (\<lambda>(key, v). \<not> py_eq v (dict_get (start_values self) key))
                            vals)))"
proof -
  from assms obtain ident upd s where i: "model_id sch self = Inr ident"
    and f: "find db sch tx ident log = (Inr (Some upd), log')"
    and r: "reload_columns sch upd (columns sch) self = (Inr (), s)"
    and s: "self' = s\<lparr>persisted := True\<rparr>"
    by (auto simp: reload_def split: sum.splits prod.splits option.splits if_splits)
  from find_Some [OF f] obtain kv row rest where
    kv: "lookup_all ident (primary_keys sch) = Inr kv"
    and d: "db log (Find tx (table sch) (columns sch) (KeySet [kv])) = Returns (row # rest)"
    and l: "log' = log @ [Find tx (table sch) (columns sch) (KeySet [kv])]"
    and u: "upd = populate sch (map_of (zip (columns sch) row)) True"
    by blast
  from reload_columns_result [OF r] s have
    sv: "start_values self' = start_values self"
    and at: "\<And>x. attrs self' x =
      (if x \<in> set (columns sch) \<and> x \<notin> set (primary_keys sch) then attrs upd x else attrs self x)"
    and p: "persisted self'"
    by simp_all
  have a1: "\<forall>c \<in> set (columns sch) - set (primary_keys sch).
              attrs self' c = Some (dict_get (map_of (zip (columns sch) row)) c)"
    by (simp add: at u populate_column)
  have a2: "\<forall>c. c \<notin> set (columns sch) - set (primary_keys sch) \<longrightarrow> attrs self' c = attrs self c"
    by (auto simp: at)
  have ch: "changes sch self' =
             (if shadowed self' ''changes'' then Inl TypeError
              else
                (case values_of sch self' of
                   Inl e \<Rightarrow> Inl e
                 | Inr vals \<Rightarrow>
                     Inr (filter (\<lambda>(key, v). \<not> py_eq v (dict_get (start_values self) key))
                            vals)))"
    by (simp add: changes_def sv split: sum.splits)
  from i kv d l a1 a2 p sv ch show ?thesis by blast
qed


lemma ann_values:
  "values_of users ann = Inr [(''uid'', PInt 1), (''name'', PStr ''ann''), (''age'', PNone)]"
  by (simp add: values_of_def users_columns getattr_def ann_def)

lemma ann_id: "model_id users ann = Inr [(''uid'', PInt 1)]"
  by (simp add: model_id_def users_shadowed users_primary_keys ann_values)

lemma bob_find:
  "find bob_db users None [(''uid'', PInt 1)] [] =
     (Inr (Some (populate users
         (map_of (zip (columns users) [PInt 1, PStr ''bob'', PInt 30])) True)),
      [Find None ''users'' [''uid'', ''name'', ''age''] (KeySet [[PInt 1]])])"
  by (simp add: find_def find_multi_def users_primary_keys execute_read_def db_invoke_def
      bob_db_def results_to_models_populate users_table users_columns)

lemma ann_reload:
  "reload bob_db users None ann [] =
     (Inr True, ann_reloaded,
      [Find None ''users'' [''uid'', ''name'', ''age''] (KeySet [[PInt 1]])])"
proof -
  have g: "getattr (populate users (map_of (zip (columns users) [PInt 1, PStr ''bob'', PInt 30])) True) c =
      Inr (dict_get (map_of (zip (columns users) [PInt 1, PStr ''bob'', PInt 30])) c)"
    if "c \<in> set (columns users)" for c
    using that by (simp add: getattr_def populate_column)
  have r: "reload_columns users
      (populate users (map_of (zip (columns users) [PInt 1, PStr ''bob'', PInt 30])) True)
      (columns users) ann =
      (Inr (), ann\<lparr>attrs := (attrs ann)(''name'' \<mapsto> PStr ''bob'', ''age'' \<mapsto> PInt 30)\<rparr>)"
    using g [of "''name''"] g [of "''age''"]
    by (simp add: users_columns users_primary_keys setattr_def users_relations
        validate_value_def users_fields string_field_def integer_field_def dict_get_def)
  have e: "ann\<lparr>attrs := (attrs ann)(''name'' \<mapsto> PStr ''bob'', ''age'' \<mapsto> PInt 30),
      persisted := True\<rparr> = ann_reloaded"
    by (auto simp: ann_def ann_reloaded_def)
  show ?thesis
    by (simp add: reload_def users_shadowed binds_twice_def ann_id bob_find r e)
qed

lemma ann_reloaded_values:
  "values_of users ann_reloaded =
     Inr [(''uid'', PInt 1), (''name'', PStr ''bob''), (''age'', PInt 30)]"
  by (simp add: values_of_def users_columns getattr_def ann_reloaded_def)

lemma ann_reloaded_changes:
  "changes users ann_reloaded = Inr [(''name'', PStr ''bob''), (''age'', PInt 30)]"
  by (simp add: changes_def users_shadowed ann_reloaded_values dict_get_def)
     (simp add: ann_reloaded_def)

text \<open>
  The claim C2 fails on \<open>ann\<close> when the store holds \<open>(1, bob, 30)\<close>: after \<open>reload()\<close>
  the name is \<open>bob\<close>, the baseline still says \<open>ann\<close>, and \<open>changes()\<close> reports both
  reloaded columns.
\<close>

theorem reload_baseline_counterexample:
  "fst (reload bob_db users None ann []) = Inr True \<and>
   attrs (fst (snd (reload bob_db users None ann []))) ''name'' = Some (PStr ''bob'') \<and>
   start_values (fst (snd (reload bob_db users None ann []))) ''name'' = Some (PStr ''ann'') \<and>
   changes users (fst (snd (reload bob_db users None ann []))) =
     Inr [(''name'', PStr ''bob''), (''age'', PInt 30)]"
  by (simp add: ann_reload ann_reloaded_changes) (simp add: ann_reloaded_def)

theorem reload_keeps_baseline_witness:
  "reload bob_db users None ann [] =
     (Inr True, ann_reloaded,
      [Find None ''users'' [''uid'', ''name'', ''age''] (KeySet [[PInt 1]])]) \<and>
   persisted ann_reloaded \<and> start_values ann_reloaded = start_values ann \<and>
   attrs ann_reloaded ''name'' = Some (PStr ''bob'') \<and>
   changes users ann_reloaded = Inr [(''name'', PStr ''bob''), (''age'', PInt 30)]"
  using reload_keeps_baseline [OF ann_reload]
  by (auto simp: ann_reload ann_reloaded_changes) (simp add: ann_reloaded_def)

section \<open>The write primitive\<close>

lemma invalid_keys_eq: "invalid_keys sch d = set (map fst d) - set (columns sch)"
  by (auto simp: invalid_keys_def)

lemma validate_items_ok:
  "(validate_items sch d = Inr ()) = list_all (value_ok sch) d"
  by (induction d)
     (auto simp: validate_value_def value_ok_def split: option.splits sum.splits)

lemma validate_items_error:
  "set (map fst d) \<subseteq> set (columns sch) \<Longrightarrow> validate_items sch d = Inl e \<Longrightarrow>
   \<exists>args. e = SpannerError (Args args)"
proof (induction d)
  case Nil
  then show ?case by simp
next
  case (Cons kv d)
  obtain k v where kv: "kv = (k, v)" by (cases kv)
  with Cons.prems(1) have "k \<in> set (columns sch)" by simp
  then have "map_of (meta_fields sch) k \<noteq> None"
    by (simp add: columns_def map_of_eq_None_iff)
  with Cons kv show ?case
    by (auto simp: validate_value_def split: option.splits sum.splits)
qed

lemma lookup_all_present:
  "set cols \<subseteq> set (map fst d) \<Longrightarrow> lookup_all d cols = Inr (dict_row cols d)"
proof (induction cols)
  case Nil
  then show ?case by (simp add: dict_row_def)
next
  case (Cons c cols)
  then have "map_of d c \<noteq> None" by (simp add: map_of_eq_None_iff)
  with Cons show ?case by (auto simp: dict_row_def dict_get_def)
qed

lemma write_rows_step:
  "write_rows sch (d # rest) (Some c) vals =
     (if set (map fst d) - set (columns sch) \<noteq> {} then
        Inl (SpannerError (InvalidKeys (name sch) (set (map fst d) - set (columns sch))))
      else if set c \<noteq> set (map fst d) then Inl (SpannerError DifferentKeySets)
      else
        (case validate_items sch d of
           Inl e \<Rightarrow> Inl e
         | Inr _ \<Rightarrow> write_rows sch rest (Some c) (vals @ [dict_row c d])))"
  by (auto simp: invalid_keys_eq lookup_all_present split: sum.splits)

lemma write_rows_first:
  "write_rows sch (d # rest) None [] = write_rows sch (d # rest) (Some (map fst d)) []"
  by (simp add: Let_def)

lemma write_rows_good:
  "list_all (mapping_ok sch c) good \<Longrightarrow>
   write_rows sch (good @ ds) (Some c) vals =
     write_rows sch ds (Some c) (vals @ map (dict_row c) good)"
proof (induction good arbitrary: vals)
  case Nil
  then show ?case by simp
next
  case (Cons g good)
  from Cons.prems have mg: "mapping_ok sch c g" and rest: "list_all (mapping_ok sch c) good"
    by simp_all
  from mg have g: "set (map fst g) - set (columns sch) = {}" "set c = set (map fst g)"
    "validate_items sch g = Inr ()"
    by (auto simp: mapping_ok_def validate_items_ok)
  from Cons.IH [OF rest] g show ?case
    by (simp add: write_rows_step del: write_rows.simps)
qed

lemma write_rows_success:
  "write_rows sch ds (Some c) vals = Inr r \<Longrightarrow> list_all (mapping_ok sch c) ds"
proof (induction ds arbitrary: vals)
  case Nil
  then show ?case by simp
next
  case (Cons d ds)
  from Cons.prems have g: "set (map fst d) - set (columns sch) = {}" "set c = set (map fst d)"
    "validate_items sch d = Inr ()"
    and rest: "write_rows sch ds (Some c) (vals @ [dict_row c d]) = Inr r"
    by (auto simp: write_rows_step simp del: write_rows.simps split: if_splits sum.splits)
  from Cons.IH [OF rest] g show ?case
    by (auto simp: mapping_ok_def validate_items_ok)
qed

lemma write_rows_error:
  "write_rows sch ds (Some c) vals = Inl e \<Longrightarrow> \<exists>msg. e = SpannerError msg"
proof (induction ds arbitrary: vals)
  case Nil
  then show ?case by simp
next
  case (Cons d ds)
  show ?case
  proof (cases "set (map fst d) - set (columns sch) \<noteq> {} \<or> set c \<noteq> set (map fst d)")
    case True
    with Cons.prems show ?thesis
      by (auto simp: write_rows_step simp del: write_rows.simps split: if_splits)
  next
    case False
    then have sub: "set (map fst d) \<subseteq> set (columns sch)" by auto
    show ?thesis
    proof (cases "validate_items sch d")
      case (Inl e')
      with Cons.prems False have "e = e'"
        by (simp add: write_rows_step del: write_rows.simps)
      with validate_items_error [OF sub Inl] show ?thesis by auto
    next
      case (Inr u)
      with Cons.prems False
      have "write_rows sch ds (Some c) (vals @ [dict_row c d]) = Inl e"
        by (simp add: write_rows_step del: write_rows.simps)
      from Cons.IH [OF this] show ?thesis .
    qed
  qed
qed


lemma write_rows_all_ok:
  "list_all (mapping_ok sch c) ds \<Longrightarrow>
   write_rows sch ds (Some c) vals = Inr (Some c, vals @ map (dict_row c) ds)"
  using write_rows_good [of sch c ds "[]" vals] by simp

lemma write_rows_None_cases:
  "write_rows sch ds None [] = Inr r \<Longrightarrow>
   (ds = [] \<and> r = (None, [])) \<or>
   (\<exists>d rest. ds = d # rest \<and> list_all (mapping_ok sch (map fst d)) ds \<and>
      r = (Some (map fst d), map (dict_row (map fst d)) ds))"
proof (cases ds)
  case Nil
  assume "write_rows sch ds None [] = Inr r"
  with Nil show ?thesis by auto
next
  case (Cons d rest)
  assume "write_rows sch ds None [] = Inr r"
  with Cons have w: "write_rows sch (d # rest) (Some (map fst d)) [] = Inr r"
    by (simp only: write_rows_first)
  from write_rows_success [OF w] have ok: "list_all (mapping_ok sch (map fst d)) (d # rest)" .
  from write_rows_all_ok [OF ok, of "[]"] w have "r = (Some (map fst d), map (dict_row (map fst d)) (d # rest))"
    by simp
  with ok Cons show ?thesis by blast
qed

lemma write_rows_None_error:
  "write_rows sch ds None [] = Inl e \<Longrightarrow> \<exists>msg. e = SpannerError msg"
proof (cases ds)
  case Nil
  assume "write_rows sch ds None [] = Inl e"
  with Nil show ?thesis by simp
next
  case (Cons d rest)
  assume "write_rows sch ds None [] = Inl e"
  with Cons have "write_rows sch (d # rest) (Some (map fst d)) [] = Inl e"
    by (simp only: write_rows_first)
  then show ?thesis by (rule write_rows_error)
qed

lemma execute_write_fails:
  assumes "\<And>r. write_rows sch ds None [] \<noteq> Inr r"
  shows "\<exists>msg. execute_write db sch m tx ds log = (Inl (SpannerError msg), log)"
proof (cases "write_rows sch ds None []")
  case (Inl e)
  from write_rows_None_error [OF Inl] obtain msg where "e = SpannerError msg" ..
  with Inl show ?thesis by (simp add: execute_write_def)
next
  case (Inr r)
  with assms show ?thesis by blast
qed

lemma execute_write_undeclared:
  assumes "d \<in> set ds" and "key \<in> set (map fst d)" and "key \<notin> set (columns sch)"
  shows "\<exists>msg. execute_write db sch m tx ds log = (Inl (SpannerError msg), log)"
proof (rule execute_write_fails)
  fix r
  show "write_rows sch ds None [] \<noteq> Inr r"
  proof
    assume "write_rows sch ds None [] = Inr r"
    from write_rows_None_cases [OF this] assms(1) obtain c where "list_all (mapping_ok sch c) ds"
      by auto
    with assms(1) have "mapping_ok sch c d" by (simp add: list_all_iff)
    with assms(2,3) show False by (auto simp: mapping_ok_def)
  qed
qed

lemma execute_write_mismatch:
  assumes "d \<in> set ds" and "d' \<in> set ds" and "set (map fst d) \<noteq> set (map fst d')"
  shows "\<exists>msg. execute_write db sch m tx ds log = (Inl (SpannerError msg), log)"
proof (rule execute_write_fails)
  fix r
  show "write_rows sch ds None [] \<noteq> Inr r"
  proof
    assume "write_rows sch ds None [] = Inr r"
    from write_rows_None_cases [OF this] assms(1) obtain c where "list_all (mapping_ok sch c) ds"
      by auto
    with assms(1,2) have "mapping_ok sch c d" "mapping_ok sch c d'" by (simp_all add: list_all_iff)
    with assms(3) show False by (simp add: mapping_ok_def)
  qed
qed

lemma write_rows_prefix:
  assumes "list_all (mapping_ok sch (map fst (hd (good @ [d])))) good"
  shows "write_rows sch (good @ d # rest) None [] =
           write_rows sch (d # rest) (Some (map fst (hd (good @ [d]))))
             (map (dict_row (map fst (hd (good @ [d])))) good)"
proof (cases good)
  case Nil
  then show ?thesis by (simp only: write_rows_first) simp
next
  case (Cons g gs)
  with assms have ok: "list_all (mapping_ok sch (map fst g)) (g # gs)" by simp
  have "write_rows sch ((g # gs) @ d # rest) None [] =
      write_rows sch ((g # gs) @ d # rest) (Some (map fst g)) []"
    using write_rows_first [of sch g "gs @ d # rest"] by simp
  also have "\<dots> = write_rows sch (d # rest) (Some (map fst g)) ([] @ map (dict_row (map fst g)) (g # gs))"
    by (rule write_rows_good [OF ok])
  finally show ?thesis using Cons by simp
qed

lemma execute_write_first_undeclared:
  assumes "list_all (mapping_ok sch (map fst (hd (good @ [d])))) good"
    and "key \<in> set (map fst d)" and "key \<notin> set (columns sch)"
  shows "execute_write db sch m tx (good @ d # rest) log =
           (Inl (SpannerError (InvalidKeys (name sch) (set (map fst d) - set (columns sch)))), log)"
proof -
  from assms(2,3) have "set (map fst d) - set (columns sch) \<noteq> {}" by auto
  then show ?thesis
    by (simp add: execute_write_def write_rows_prefix [OF assms(1)] write_rows_step
        del: write_rows.simps)
qed

lemma execute_write_first_mismatch:
  assumes "good \<noteq> []" and "list_all (mapping_ok sch (map fst (hd good))) good"
    and "set (map fst d) \<subseteq> set (columns sch)"
    and "set (map fst d) \<noteq> set (map fst (hd good))"
  shows "execute_write db sch m tx (good @ d # rest) log = (Inl (SpannerError DifferentKeySets), log)"
proof -
  from assms(1) have h: "hd (good @ [d]) = hd good" by simp
  from assms(2) h have ok: "list_all (mapping_ok sch (map fst (hd (good @ [d])))) good" by simp
  from assms(3) have "set (map fst d) - set (columns sch) = {}" by auto
  with assms(4) h show ?thesis
    by (simp add: execute_write_def write_rows_prefix [OF ok] write_rows_step
        del: write_rows.simps) auto
qed

lemma execute_write_all_ok:
  assumes "list_all (mapping_ok sch (map fst d)) (d # rest)"
  shows "execute_write db sch m tx (d # rest) log =
     (case db log (Write m tx (table sch) (Some (map fst d))
              (map (dict_row (map fst d)) (d # rest))) of
        Raises \<Rightarrow> Inl DatabaseError
      | Returns rows \<Rightarrow> Inr (),
      log @ [Write m tx (table sch) (Some (map fst d)) (map (dict_row (map fst d)) (d # rest))])"
proof -
  have "write_rows sch (d # rest) None [] =
      Inr (Some (map fst d), map (dict_row (map fst d)) (d # rest))"
    using write_rows_all_ok [OF assms, of "[]"] by (simp only: write_rows_first) simp
  then show ?thesis
    by (simp add: execute_write_def db_invoke_def split: response.splits del: write_rows.simps)
qed

lemma execute_write_rectangular:
  assumes "execute_write db sch m tx ds log = (r, log')"
  shows "log' = log \<or>
     (\<exists>cols rows. log' = log @ [Write m tx (table sch) cols rows] \<and> length rows = length ds \<and>
        (\<forall>row \<in> set rows. \<exists>c. cols = Some c \<and> length row = length c))"
proof (cases "write_rows sch ds None []")
  case (Inl e)
  with assms show ?thesis by (simp add: execute_write_def)
next
  case (Inr cv)
  from write_rows_None_cases [OF Inr] show ?thesis
  proof
    assume "ds = [] \<and> cv = (None, [])"
    with assms Inr show ?thesis
      by (auto simp: execute_write_def db_invoke_def split: response.splits)
  next
    assume "\<exists>d rest. ds = d # rest \<and> list_all (mapping_ok sch (map fst d)) ds \<and>
      cv = (Some (map fst d), map (dict_row (map fst d)) ds)"
    then obtain d rest where "ds = d # rest"
      and "cv = (Some (map fst d), map (dict_row (map fst d)) ds)" by blast
    with assms Inr show ?thesis
      by (auto simp: execute_write_def db_invoke_def dict_row_def split: response.splits)
  qed
qed


lemma validate_items_first:
  "list_all (value_ok sch) pre \<Longrightarrow> map_of (meta_fields sch) k = Some f \<Longrightarrow>
   validate f v = Some args \<Longrightarrow>
   validate_items sch (pre @ (k, v) # post) = Inl (SpannerError (Args args))"
  by (induction pre)
     (auto simp: validate_value_def value_ok_def split: option.splits prod.splits)

lemma execute_write_first_rejected:
  assumes "list_all (mapping_ok sch (map fst (hd (good @ [d])))) good"
    and "d = pre @ (k, v) # post"
    and "set (map fst d) \<subseteq> set (columns sch)"
    and "set (map fst d) = set (map fst (hd (good @ [d])))"
    and "list_all (value_ok sch) pre" and "map_of (meta_fields sch) k = Some f"
    and "validate f v = Some args"
  shows "execute_write db sch m tx (good @ d # rest) log = (Inl (SpannerError (Args args)), log)"
proof -
  from assms(3) have i: "set (map fst d) - set (columns sch) = {}" by auto
  from validate_items_first [OF assms(5,6,7), of post] assms(2)
  have v: "validate_items sch d = Inl (SpannerError (Args args))" by simp
  from i v assms(4) show ?thesis
    by (simp add: execute_write_def write_rows_prefix [OF assms(1)] write_rows_step
        del: write_rows.simps)
qed

text \<open>
  C5, as the code has it. The checks run mapping by mapping, and within a mapping in
  the order undeclared keys, key set, values; the first mapping to fail a check decides
  the error, and no call is issued. So a write one of whose mappings has a key that is
  not a declared column fails with \<open>SpannerError\<close> and issues no call; the error names
  the record type and the undeclared keys when that mapping is the first at fault (the
  mappings before it are fit to be written), which is always so for the single mapping
  of \<open>create\<close>, \<open>update\<close> and \<open>create_or_update\<close>. A write two of whose mappings differ
  in their key sets fails with \<open>SpannerError\<close> and issues no call; it is the
  different-key-sets error when the first mapping at fault has declared keys only and a
  key set other than the first mapping's. When the first mapping at fault has declared
  keys, the shared key set and a rejected value, the error carries the arguments of the
  field's validation error for its first rejected value. When every mapping is fit, one
  call is issued: its column list is the key list of the first mapping and its rows, one
  per mapping in order, hold each mapping's values in the order of that column list.
  Every call ever issued holds one row per mapping, each as long as the column list.
\<close>

theorem execute_write_contract:
  "(d \<in> set ds \<and> key \<in> set (map fst d) \<and> key \<notin> set (columns sch) \<longrightarrow>
      (\<exists>msg. execute_write db sch m tx ds log = (Inl (SpannerError msg), log))) \<and>
   (list_all (mapping_ok sch (map fst (hd (good @ [d])))) good \<and>
    key \<in> set (map fst d) \<and> key \<notin> set (columns sch) \<longrightarrow>
      execute_write db sch m tx (good @ d # rest) log =
        (Inl (SpannerError (InvalidKeys (name sch) (set (map fst d) - set (columns sch)))), log)) \<and>
   (key \<in> set (map fst d) \<and> key \<notin> set (columns sch) \<longrightarrow>
      create db sch tx d log =
        (Inl (SpannerError (InvalidKeys (name sch) (set (map fst d) - set (columns sch)))), log) \<and>
      update db sch tx d log =
        (Inl (SpannerError (InvalidKeys (name sch) (set (map fst d) - set (columns sch)))), log) \<and>
      create_or_update db sch tx d log =
        (Inl (SpannerError (InvalidKeys (name sch) (set (map fst d) - set (columns sch)))), log)) \<and>
   (d \<in> set ds \<and> d' \<in> set ds \<and> set (map fst d) \<noteq> set (map fst d') \<longrightarrow>
      (\<exists>msg. execute_write db sch m tx ds log = (Inl (SpannerError msg), log))) \<and>
   (good \<noteq> [] \<and> list_all (mapping_ok sch (map fst (hd good))) good \<and>
    set (map fst d) \<subseteq> set (columns sch) \<and> set (map fst d) \<noteq> set (map fst (hd good)) \<longrightarrow>
      execute_write db sch m tx (good @ d # rest) log =
        (Inl (SpannerError DifferentKeySets), log)) \<and>
   (list_all (mapping_ok sch (map fst (hd (good @ [d])))) good \<and> d = pre @ (k, v) # post \<and>
    set (map fst d) \<subseteq> set (columns sch) \<and>
    set (map fst d) = set (map fst (hd (good @ [d]))) \<and>
    list_all (value_ok sch) pre \<and> map_of (meta_fields sch) k = Some f \<and>
    validate f v = Some args \<longrightarrow>
      execute_write db sch m tx (good @ d # rest) log = (Inl (SpannerError (Args args)), log)) \<and>
   (list_all (mapping_ok sch (map fst d)) (d # rest) \<longrightarrow>
      execute_write db sch m tx (d # rest) log =
        (case db log (Write m tx (table sch) (Some (map fst d))
                 (map (dict_row (map fst d)) (d # rest))) of
           Raises \<Rightarrow> Inl DatabaseError
         | Returns rows \<Rightarrow> Inr (),
         log @ [Write m tx (table sch) (Some (map fst d))
                 (map (dict_row (map fst d)) (d # rest))])) \<and>
   (execute_write db sch m tx ds log = (r, log') \<longrightarrow>
      log' = log \<or>
      (\<exists>cols rows. log' = log @ [Write m tx (table sch) cols rows] \<and>
         length rows = length ds \<and>
         (\<forall>row \<in> set rows. \<exists>c. cols = Some c \<and> length row = length c)))"
proof (intro conjI impI)
  assume "d \<in> set ds \<and> key \<in> set (map fst d) \<and> key \<notin> set (columns sch)"
  then show "\<exists>msg. execute_write db sch m tx ds log = (Inl (SpannerError msg), log)"
    using execute_write_undeclared by blast
next
  assume "list_all (mapping_ok sch (map fst (hd (good @ [d])))) good \<and>
    key \<in> set (map fst d) \<and> key \<notin> set (columns sch)"
  then show "execute_write db sch m tx (good @ d # rest) log =
        (Inl (SpannerError (InvalidKeys (name sch) (set (map fst d) - set (columns sch)))), log)"
    using execute_write_first_undeclared by blast
next
  assume a: "key \<in> set (map fst d) \<and> key \<notin> set (columns sch)"
  have "list_all (mapping_ok sch (map fst (hd ([] @ [d])))) []" by simp
  from execute_write_first_undeclared [OF this, where key = key and db = db and tx = tx
      and rest = "[]" and log = log] a
  have e: "execute_write db sch m' tx [d] log =
        (Inl (SpannerError (InvalidKeys (name sch) (set (map fst d) - set (columns sch)))), log)"
    for m' by simp
  from e show "create db sch tx d log =
        (Inl (SpannerError (InvalidKeys (name sch) (set (map fst d) - set (columns sch)))), log)"
    by (simp add: create_def)
  from e show "update db sch tx d log =
        (Inl (SpannerError (InvalidKeys (name sch) (set (map fst d) - set (columns sch)))), log)"
    by (simp add: update_def)
  from e show "create_or_update db sch tx d log =
        (Inl (SpannerError (InvalidKeys (name sch) (set (map fst d) - set (columns sch)))), log)"
    by (simp add: create_or_update_def)
next
  assume "d \<in> set ds \<and> d' \<in> set ds \<and> set (map fst d) \<noteq> set (map fst d')"
  then show "\<exists>msg. execute_write db sch m tx ds log = (Inl (SpannerError msg), log)"
    using execute_write_mismatch by blast
next
  assume "good \<noteq> [] \<and> list_all (mapping_ok sch (map fst (hd good))) good \<and>
    set (map fst d) \<subseteq> set (columns sch) \<and> set (map fst d) \<noteq> set (map fst (hd good))"
  then show "execute_write db sch m tx (good @ d # rest) log =
        (Inl (SpannerError DifferentKeySets), log)"
    using execute_write_first_mismatch by blast
next
  assume "list_all (mapping_ok sch (map fst (hd (good @ [d])))) good \<and> d = pre @ (k, v) # post \<and>
    set (map fst d) \<subseteq> set (columns sch) \<and>
    set (map fst d) = set (map fst (hd (good @ [d]))) \<and>
    list_all (value_ok sch) pre \<and> map_of (meta_fields sch) k = Some f \<and>
    validate f v = Some args"
  then show "execute_write db sch m tx (good @ d # rest) log =
      (Inl (SpannerError (Args args)), log)"
    using execute_write_first_rejected by blast
next
  assume "list_all (mapping_ok sch (map fst d)) (d # rest)"
  then show "execute_write db sch m tx (d # rest) log =
        (case db log (Write m tx (table sch) (Some (map fst d))
                 (map (dict_row (map fst d)) (d # rest))) of
           Raises \<Rightarrow> Inl DatabaseError
         | Returns rows \<Rightarrow> Inr (),
         log @ [Write m tx (table sch) (Some (map fst d))
                 (map (dict_row (map fst d)) (d # rest))])"
    by (rule execute_write_all_ok)
next
  assume "execute_write db sch m tx ds log = (r, log')"
  then show "log' = log \<or>
      (\<exists>cols rows. log' = log @ [Write m tx (table sch) cols rows] \<and>
         length rows = length ds \<and>
         (\<forall>row \<in> set rows. \<exists>c. cols = Some c \<and> length row = length c))"
    by (rule execute_write_rectangular)
qed

lemma users_name: "name users = ''User''"
  by (simp add: users_def)

lemma users_ok_id: "mapping_ok users [''uid''] [(''uid'', PInt i)]"
  by (simp add: mapping_ok_def users_columns value_ok_def users_fields integer_field_def)

lemma users_ok_full:
  "mapping_ok users [''uid'', ''name'', ''age''] [(''uid'', PInt i), (''name'', PStr n), (''age'', PNone)]"
  by (simp add: mapping_ok_def users_columns value_ok_def users_fields integer_field_def
      string_field_def)

lemma users_ok_permuted:
  "mapping_ok users [''uid'', ''name'', ''age''] [(''age'', PInt a), (''name'', PStr n), (''uid'', PInt i)]"
  by (auto simp: mapping_ok_def users_columns value_ok_def users_fields integer_field_def
      string_field_def)

lemma users_rejects_string_uid:
  "validate (integer_field False) (PStr ''x'') = Some [PStr ''not of type int'', PStr ''x'']"
  by (simp add: integer_field_def)

text \<open>
  The claim C5 fails on two writes that each hold a mapping with the undeclared key
  \<open>zzz\<close>: in the first an earlier mapping has another key set, and the error is the
  different-key-sets one; in the second an earlier mapping has a rejected value, and the
  error is the field's validation error. Neither names \<open>zzz\<close>.
\<close>

theorem execute_write_contract_counterexample:
  "''zzz'' \<notin> set (columns users) \<and>
   execute_write empty_db users Insert None
       [[(''uid'', PInt 1)], [(''uid'', PInt 2), (''age'', PNone)], [(''zzz'', PInt 3)]] [] =
     (Inl (SpannerError DifferentKeySets), []) \<and>
   execute_write empty_db users Insert None
       [[(''uid'', PStr ''x'')], [(''zzz'', PInt 1)]] [] =
     (Inl (SpannerError (Args [PStr ''not of type int'', PStr ''x''])), [])"
  by (simp add: execute_write_def invalid_keys_def users_columns validate_value_def
      users_fields integer_field_def)

theorem execute_write_contract_witness:
  "(\<exists>msg. execute_write empty_db users Insert None
       [[(''uid'', PStr ''x'')], [(''zzz'', PInt 1)]] [] = (Inl (SpannerError msg), [])) \<and>
   execute_write empty_db users Insert None [[(''uid'', PStr ''x'')], [(''zzz'', PInt 1)]] [] =
     (Inl (SpannerError (Args [PStr ''not of type int'', PStr ''x''])), []) \<and>
   execute_write empty_db users Insert None [[(''uid'', PInt 1)], [(''zzz'', PInt 1)]] [] =
     (Inl (SpannerError (InvalidKeys ''User'' {''zzz''})), []) \<and>
   create empty_db users None [(''zzz'', PInt 1)] [] =
     (Inl (SpannerError (InvalidKeys ''User'' {''zzz''})), []) \<and>
   execute_write empty_db users Update None
       [[(''uid'', PInt 1)], [(''uid'', PInt 2), (''age'', PNone)]] [] =
     (Inl (SpannerError DifferentKeySets), []) \<and>
   execute_write empty_db users Upsert (Some 3)
       [[(''uid'', PInt 1), (''name'', PStr ''a''), (''age'', PNone)],
        [(''age'', PInt 3), (''name'', PStr ''b''), (''uid'', PInt 2)]] [] =
     (Inr (),
      [Write Upsert (Some 3) ''users'' (Some [''uid'', ''name'', ''age''])
         [[PInt 1, PStr ''a'', PNone], [PInt 2, PStr ''b'', PInt 3]]])"
  using
    execute_write_contract [where sch = users and db = empty_db and m = Insert and tx = None
      and log = "[]" and ds = "[[(''uid'', PStr ''x'')], [(''zzz'', PInt 1)]]"
      and d = "[(''zzz'', PInt 1)]" and key = "''zzz''" and good = "[[(''uid'', PInt 1)]]"
      and rest = "[]"]
    execute_write_contract [where sch = users and db = empty_db and m = Insert and tx = None
      and log = "[]" and d = "[(''uid'', PStr ''x'')]" and good = "[]"
      and pre = "[]" and k = "''uid''" and v = "PStr ''x''" and post = "[]"
      and f = "integer_field False" and args = "[PStr ''not of type int'', PStr ''x'']"
      and rest = "[[(''zzz'', PInt 1)]]"]
    execute_write_contract [where sch = users and db = empty_db and m = Update and tx = None
      and log = "[]" and ds = "[[(''uid'', PInt 1)], [(''uid'', PInt 2), (''age'', PNone)]]"
      and d = "[(''uid'', PInt 2), (''age'', PNone)]" and d' = "[(''uid'', PInt 1)]"
      and good = "[[(''uid'', PInt 1)]]" and rest = "[]"]
    execute_write_contract [where sch = users and db = empty_db and m = Upsert and tx = "Some 3"
      and log = "[]"
      and d = "[(''uid'', PInt 1), (''name'', PStr ''a''), (''age'', PNone)]"
      and rest = "[[(''age'', PInt 3), (''name'', PStr ''b''), (''uid'', PInt 2)]]"]
  by (simp add: users_columns users_ok_id users_ok_full users_ok_permuted users_name
      users_table dict_row_def dict_get_def empty_db_def users_fields
      users_rejects_string_uid)

section \<open>Saving a batch\<close>

lemma work_append_map:
  "distinct R \<Longrightarrow>
   work_append k v (map (\<lambda>k'. (k', f k')) R) =
     (if k \<in> set R then map (\<lambda>k'. (k', if k' = k then f k' @ [v] else f k')) R
      else map (\<lambda>k'. (k', f k')) R @ [(k, [v])])"
  by (induction R) auto

lemma first_kinds_snoc:
  "rev (remdups (rev (ks @ [k]))) =
     (if k \<in> set ks then rev (remdups (rev ks)) else rev (remdups (rev ks)) @ [k])"
  by simp

lemma group_by_kind_snoc:
  "group_by_kind (kvs @ [(k, v)]) = work_append k v (group_by_kind kvs)"
proof -
  let ?R = "rev (remdups (rev (map fst kvs)))"
  let ?f = "\<lambda>k'. map snd (filter (\<lambda>kv. fst kv = k') kvs)"
  have d: "distinct ?R" by simp
  have s: "set ?R = set (map fst kvs)" by simp
  have g: "group_by_kind kvs = map (\<lambda>k'. (k', ?f k')) ?R" by (simp add: group_by_kind_def)
  show ?thesis
  proof (cases "k \<in> set (map fst kvs)")
    case True
    with s have "k \<in> set ?R" by simp
    with work_append_map [OF d, of k v ?f] g True show ?thesis
      by (auto simp: group_by_kind_def)
  next
    case False
    with s have n: "k \<notin> set ?R" by simp
    from False have e: "filter (\<lambda>kv. fst kv = k) kvs = []"
      by (auto simp: filter_empty_conv)
    have "map (\<lambda>k'. (k', map snd (filter (\<lambda>kv. fst kv = k') (kvs @ [(k, v)])))) ?R =
        map (\<lambda>k'. (k', ?f k')) ?R"
      using n by (intro map_cong) auto
    with work_append_map [OF d, of k v ?f] g False n e show ?thesis
      by (simp add: group_by_kind_def)
  qed
qed

lemma fold_work_append:
  "fold (\<lambda>(k, v). work_append k v) kvs [] = group_by_kind kvs"
proof (induction kvs rule: rev_induct)
  case Nil
  then show ?case by (simp add: group_by_kind_def)
next
  case (snoc kv kvs)
  obtain k v where "kv = (k, v)" by (cases kv)
  with snoc show ?case by (simp add: group_by_kind_snoc)
qed

lemma group_by_kind_map:
  "map (\<lambda>(k, vs). (k, map f vs)) (group_by_kind kvs) =
     group_by_kind (map (\<lambda>(k, v). (k, f v)) kvs)"
  by (simp add: group_by_kind_def comp_def case_prod_unfold filter_map)


lemma group_by_kind_nonempty:
  "(k, vs) \<in> set (group_by_kind kvs) \<Longrightarrow> vs \<noteq> [] \<and> set vs \<subseteq> snd ` set kvs"
proof -
  assume "(k, vs) \<in> set (group_by_kind kvs)"
  then have k: "k \<in> set (map fst kvs)" and vs: "vs = map snd (filter (\<lambda>kv. fst kv = k) kvs)"
    by (auto simp: group_by_kind_def)
  from k obtain v where "(k, v) \<in> set kvs" by auto
  then have "filter (\<lambda>kv. fst kv = k) kvs \<noteq> []"
    by (auto simp: filter_empty_conv intro!: bexI [of _ "(k, v)"])
  with vs show ?thesis by auto
qed


lemma getattrs_has_columns:
  "list_all (\<lambda>c. attrs self c \<noteq> None) cs \<Longrightarrow>
   getattrs self cs = Inr (map (\<lambda>c. (c, dict_get (attrs self) c)) cs)"
  by (induction cs) (auto simp: getattr_def dict_get_def)

lemma kind_at_Cons_0:
  "kind_at force_write h (m # ms) 0 =
     (if force_write then Upsert else if persisted (h m) then Update else Insert)"
  by (simp add: kind_at_def reached_flag_def)

lemma kind_at_Cons_Suc:
  "kind_at force_write h (m # ms) (Suc i) =
     kind_at force_write (h(m := (h m)\<lparr>persisted := True\<rparr>)) ms i"
  by (auto simp: kind_at_def reached_flag_def)

lemma mark_persisted_Cons:
  "mark_persisted (m # ms) h = mark_persisted ms (h(m := (h m)\<lparr>persisted := True\<rparr>))"
  by (auto simp: mark_persisted_def fun_eq_iff)

lemma upt_0_Suc: "[0..<Suc n] = 0 # map Suc [0..<n]"
  by (simp add: upt_conv_Cons map_Suc_upt del: upt_Suc)

lemma partition_models_routed:
  assumes "\<forall>m \<in> set ms. has_columns sch (h m)"
  shows "partition_models sch force_write ms h work =
     (Inr (fold (\<lambda>(k, v). work_append k v)
        (map (\<lambda>i. (kind_at force_write h ms i,
                    map (\<lambda>c. (c, dict_get (attrs (h (ms ! i))) c)) (columns sch)))
           [0..<length ms])
        work),
      mark_persisted ms h)"
  using assms
proof (induction ms arbitrary: h work)
  case Nil
  then show ?case by (simp add: mark_persisted_def)
next
  case (Cons m ms)
  let ?h = "h(m := (h m)\<lparr>persisted := True\<rparr>)"
  let ?k = "if force_write then Upsert else if persisted (h m) then Update else Insert"
  let ?v = "map (\<lambda>c. (c, dict_get (attrs (h m)) c)) (columns sch)"
  from Cons.prems have g: "getattrs (h m) (columns sch) = Inr ?v"
    by (simp add: has_columns_def getattrs_has_columns)
  have a: "attrs (?h x) = attrs (h x)" for x by simp
  from Cons.prems have "\<forall>x \<in> set ms. has_columns sch (?h x)"
    by (simp add: has_columns_def)
  note ih = Cons.IH [OF this, of "work_append ?k ?v work"]
  have "map (\<lambda>i. (kind_at force_write h (m # ms) i,
                    map (\<lambda>c. (c, dict_get (attrs (h ((m # ms) ! i))) c)) (columns sch)))
           [0..<length (m # ms)] =
        (?k, ?v) #
        map (\<lambda>i. (kind_at force_write ?h ms i,
                    map (\<lambda>c. (c, dict_get (attrs (?h (ms ! i))) c)) (columns sch)))
           [0..<length ms]"
    by (simp add: upt_0_Suc kind_at_Cons_0 kind_at_Cons_Suc comp_def del: upt_Suc fun_upd_apply)
       (simp add: a)
  with ih g show ?case
    by (simp add: mark_persisted_Cons Let_def del: upt_Suc fun_upd_apply)
qed

lemma write_groups_calls:
  assumes "\<forall>(k, vs) \<in> set work. vs \<noteq> [] \<and> (\<forall>v \<in> set vs. map fst v = cols)"
    and "write_groups db sch tx work log = (r, log')"
  shows "(\<exists>n. log' = log @ take n
            (map (\<lambda>(k, vs). Write k tx (table sch) (Some cols) (map (dict_row cols) vs)) work)) \<and>
         (r = Inr () \<longrightarrow> log' = log @
            map (\<lambda>(k, vs). Write k tx (table sch) (Some cols) (map (dict_row cols) vs)) work)"
  using assms
proof (induction work arbitrary: log)
  case Nil
  then show ?case by simp
next
  case (Cons g work)
  obtain k vs where gk: "g = (k, vs)" by (cases g)
  let ?call = "Write k tx (table sch) (Some cols) (map (dict_row cols) vs)"
  let ?calls = "map (\<lambda>(k, vs). Write k tx (table sch) (Some cols) (map (dict_row cols) vs)) work"
  from Cons.prems(1) gk have ne: "vs \<noteq> []" and ks: "\<forall>v \<in> set vs. map fst v = cols"
    and rest: "\<forall>(k, vs) \<in> set work. vs \<noteq> [] \<and> (\<forall>v \<in> set vs. map fst v = cols)"
    by auto
  show ?case
  proof (cases "write_rows sch vs None []")
    case (Inl e)
    with Cons.prems(2) gk have "r = Inl e" "log' = log"
      by (simp_all add: execute_write_def del: write_rows.simps)
    then show ?thesis by (auto intro: exI [of _ 0])
  next
    case (Inr cv)
    from write_rows_None_cases [OF Inr] ne obtain d rest' where d: "vs = d # rest'"
      and cv: "cv = (Some (map fst d), map (dict_row (map fst d)) vs)"
      by auto
    from d ks have "map fst d = cols" by simp
    with cv have cv': "cv = (Some cols, map (dict_row cols) vs)" by simp
    show ?thesis
    proof (cases "db log ?call")
      case Raises
      with Cons.prems(2) gk Inr cv' have "r = Inl DatabaseError" "log' = log @ [?call]"
        by (simp_all add: execute_write_def db_invoke_def del: write_rows.simps)
      with gk show ?thesis by (auto intro: exI [of _ 1])
    next
      case (Returns rows)
      with Cons.prems(2) gk Inr cv'
      have "write_groups db sch tx work (log @ [?call]) = (r, log')"
        by (simp add: execute_write_def db_invoke_def del: write_rows.simps)
      from Cons.IH [OF rest this] obtain n where
        n: "log' = (log @ [?call]) @ take n ?calls"
        and s: "r = Inr () \<longrightarrow> log' = (log @ [?call]) @ ?calls"
        by blast
      have A: "\<exists>n. log' = log @ take n
          (map (\<lambda>(k, vs). Write k tx (table sch) (Some cols) (map (dict_row cols) vs)) (g # work))"
        by (rule exI [of _ "Suc n"]) (simp add: n gk)
      from s gk have B: "r = Inr () \<longrightarrow> log' = log @
          map (\<lambda>(k, vs). Write k tx (table sch) (Some cols) (map (dict_row cols) vs)) (g # work)"
        by simp
      from A B show ?thesis ..
    qed
  qed
qed


lemma dict_row_self: "dict_row cs (map (\<lambda>c. (c, g c)) cs) = map g cs"
proof -
  have "map_of (map (\<lambda>c. (c, g c)) cs) c = Some (g c)" if "c \<in> set cs" for c
    using that by (simp add: map_of_map_restrict)
  then show ?thesis by (simp add: dict_row_def dict_get_def)
qed

lemma routed_dicts:
  "map (\<lambda>(k, v). (k, dict_row (columns sch) v))
     (map (\<lambda>i. (kind_at force_write h ms i,
                 map (\<lambda>c. (c, dict_get (attrs (h (ms ! i))) c)) (columns sch)))
        [0..<length ms]) =
   routed sch force_write h ms"
  by (simp add: routed_def row_of_def dict_row_self comp_def del: upt_Suc)

lemma save_batch_calls:
  assumes "\<forall>m \<in> set ms. has_columns sch (h m)"
    and "save_batch db sch tx ms force_write h log = (r, h', log')"
  shows "h' = mark_persisted ms h \<and>
         (\<exists>work. partition_models sch force_write ms h [] = (Inr work, h') \<and>
            write_groups db sch tx work log = (r, log')) \<and>
         (\<exists>n. log' = log @ take n (batch_calls sch tx force_write h ms)) \<and>
         (r = Inr () \<longrightarrow> log' = log @ batch_calls sch tx force_write h ms)"
proof -
  let ?dicts = "map (\<lambda>i. (kind_at force_write h ms i,
                 map (\<lambda>c. (c, dict_get (attrs (h (ms ! i))) c)) (columns sch)))
        [0..<length ms]"
  let ?work = "group_by_kind ?dicts"
  from partition_models_routed [OF assms(1), of force_write "[]"]
  have p: "partition_models sch force_write ms h [] = (Inr ?work, mark_persisted ms h)"
    by (simp only: fold_work_append)
  with assms(2) have h': "h' = mark_persisted ms h"
    and w: "write_groups db sch tx ?work log = (r, log')"
    by (auto simp: save_batch_def split: prod.splits)
  have ok: "\<forall>(k, vs) \<in> set ?work. vs \<noteq> [] \<and> (\<forall>v \<in> set vs. map fst v = columns sch)"
  proof clarify
    fix k vs
    assume "(k, vs) \<in> set ?work"
    from group_by_kind_nonempty [OF this]
    have ne: "vs \<noteq> []" and sub: "set vs \<subseteq> snd ` set ?dicts" by simp_all
    have "map fst v = columns sch" if "v \<in> set vs" for v
    proof -
      from that sub have "v \<in> snd ` set ?dicts" by blast
      then show ?thesis by (auto simp: comp_def simp del: upt_Suc)
    qed
    with ne show "vs \<noteq> [] \<and> (\<forall>v \<in> set vs. map fst v = columns sch)" by blast
  qed
  have c: "map (\<lambda>(k, vs). Write k tx (table sch) (Some (columns sch))
               (map (dict_row (columns sch)) vs)) ?work =
           batch_calls sch tx force_write h ms"
  proof -
    have "map (\<lambda>(k, vs). Write k tx (table sch) (Some (columns sch))
               (map (dict_row (columns sch)) vs)) ?work =
          map (\<lambda>(k, rows). Write k tx (table sch) (Some (columns sch)) rows)
            (map (\<lambda>(k, vs). (k, map (dict_row (columns sch)) vs)) ?work)"
      by (simp add: comp_def case_prod_unfold del: upt_Suc)
    also have "\<dots> = batch_calls sch tx force_write h ms"
      by (simp only: group_by_kind_map routed_dicts batch_calls_def)
    finally show ?thesis .
  qed
  from write_groups_calls [OF ok w] c p h' w show ?thesis by auto
qed




lemma init_establishes_invariant:
  assumes "init sch vals False = Inr self"
  shows "has_columns sch self \<and> values_valid sch self"
proof -
  from assms have vc: "validate_columns sch vals (columns sch) = Inr ()"
    and s: "self = populate sch vals False"
    by (auto simp: init_def split: if_splits sum.splits)
  have "list_all (\<lambda>c. value_ok sch (c, dict_get vals c)) cs"
    if "validate_columns sch vals cs = Inr ()" for cs
    using that
    by (induction cs)
       (auto simp: validate_value_def value_ok_def split: option.splits sum.splits)
  from this [OF vc] s show ?thesis
    by (simp add: has_columns_def values_valid_def list_all_iff populate_column dict_get_def)
qed







text \<open>
  C9. The heap after \<open>save_batch\<close> is the heap after its first loop, which makes no
  database call; the second loop, which makes them all, touches no instance. For
  instances that each hold a value for every column the first loop marks every one of
  them persisted, so they are all marked whatever the second loop returns or raises, a
  database error included: nothing is restored.
\<close>

theorem save_batch_marks_before_writing:
  assumes "save_batch db sch tx ms force_write h log = (r, h', log')"
  shows "h' = snd (partition_models sch force_write ms h []) \<and>
         ((\<forall>m \<in> set ms. has_columns sch (h m)) \<longrightarrow>
            (\<forall>m \<in> set ms. persisted (h' m)) \<and>
            (\<exists>work. partition_models sch force_write ms h [] = (Inr work, h') \<and>
               write_groups db sch tx work log = (r, log')))"
proof -
  from assms have 1: "h' = snd (partition_models sch force_write ms h [])"
    by (auto simp: save_batch_def split: prod.splits sum.splits)
  have 2: "(\<forall>m \<in> set ms. persisted (h' m)) \<and>
            (\<exists>work. partition_models sch force_write ms h [] = (Inr work, h') \<and>
               write_groups db sch tx work log = (r, log'))"
    if hc: "\<forall>m \<in> set ms. has_columns sch (h m)"
  proof -
    from save_batch_calls [OF hc assms] have "h' = mark_persisted ms h"
      and w: "\<exists>work. partition_models sch force_write ms h [] = (Inr work, h') \<and>
               write_groups db sch tx work log = (r, log')"
      by blast+
    then have "\<forall>m \<in> set ms. persisted (h' m)" by (simp add: mark_persisted_def)
    with w show ?thesis by blast
  qed
  from 1 2 show ?thesis by blast
qed

lemma bea_has_columns: "has_columns users (bea_ann 0)"
  by (simp add: has_columns_def users_columns bea_ann_def bea_def)

lemma ann_has_columns: "has_columns users (bea_ann (Suc 0))"
  by (simp add: has_columns_def users_columns bea_ann_def ann_def)

lemma bea_ann_rows:
  "row_of users (bea_ann 0) = [PInt 2, PStr ''bea'', PNone]"
  "row_of users (bea_ann (Suc 0)) = [PInt 1, PStr ''ann'', PNone]"
  by (simp_all add: row_of_def users_columns bea_ann_def bea_def ann_def dict_get_def)

lemma bea_ann_flags: "\<not> persisted (bea_ann 0)" "persisted (bea_ann (Suc 0))"
  by (simp_all add: bea_ann_def bea_def ann_def)

lemma bea_ann_getattrs:
  "getattrs (bea_ann 0) (columns users) =
     Inr [(''uid'', PInt 2), (''name'', PStr ''bea''), (''age'', PNone)]"
  "getattrs (bea_ann (Suc 0)) (columns users) =
     Inr [(''uid'', PInt 1), (''name'', PStr ''ann''), (''age'', PNone)]"
  by (simp_all add: users_columns getattr_def bea_ann_def bea_def ann_def)





lemma bea_ann_batch_failing:
  "save_batch failing_db users None [0, Suc 0] False bea_ann [] =
     (Inl DatabaseError,
      bea_ann(0 := bea_ann 0\<lparr>persisted := True\<rparr>,
              Suc 0 := bea_ann (Suc 0)\<lparr>persisted := True\<rparr>),
      [Write Insert None ''users'' (Some [''uid'', ''name'', ''age''])
         [[PInt 2, PStr ''bea'', PNone]]])"
  by (simp add: save_batch_def bea_ann_getattrs bea_ann_flags execute_write_def
      users_write_full db_invoke_def users_table failing_db_def
      del: write_rows.simps)


theorem save_batch_marks_before_writing_witness:
  "has_columns users (bea_ann 0) \<and> has_columns users (bea_ann (Suc 0)) \<and>
   \<not> persisted (bea_ann 0) \<and>
   fst (save_batch failing_db users None [0, Suc 0] False bea_ann []) = Inl DatabaseError \<and>
   snd (snd (save_batch failing_db users None [0, Suc 0] False bea_ann [])) =
     [Write Insert None ''users'' (Some [''uid'', ''name'', ''age''])
        [[PInt 2, PStr ''bea'', PNone]]] \<and>
   persisted (fst (snd (save_batch failing_db users None [0, Suc 0] False bea_ann [])) 0) \<and>
   persisted (fst (snd (save_batch failing_db users None [0, Suc 0] False bea_ann [])) (Suc 0))"
proof -
  have hc: "\<forall>m \<in> set [0, Suc 0]. has_columns users (bea_ann m)"
    by (simp add: bea_has_columns ann_has_columns)
  from save_batch_marks_before_writing [OF bea_ann_batch_failing, THEN conjunct2] hc
  show ?thesis
    by (simp add: bea_has_columns ann_has_columns bea_ann_batch_failing bea_ann_flags)
qed


text \<open>
  The same object twice in the list: it is inserted where it is first reached and, its
  flag now set, updated where it is reached again.
\<close>

lemma routed_same_object_twice:
  "routed users False bea_ann [0, 0] =
     [(Insert, [PInt 2, PStr ''bea'', PNone]), (Update, [PInt 2, PStr ''bea'', PNone])]"
  by (simp add: routed_def kind_at_def reached_flag_def bea_ann_rows bea_ann_flags)

end
